theory Spec2Isabelle
  imports Main "HOL-Library.AList" "HOL-Library.Char_ord" "HOL-Library.List_Lexorder"
    "HOL-Library.Multiset"
begin

section \<open>Pinterest bulk post bot: a model of \<^verbatim>\<open>main.py\<close>\<close>

text \<open>
  The script is one linear pipeline: load the configuration, find the images, load the
  per-image metadata, ask for what is missing, start the browser, wait for the login and
  post one pin per image. Everything outside the process (files, the folder, the
  keyboard, the browser and the site) is a field of the record \<open>world\<close>; every
  function of the script becomes a function of its arguments and of that record, and
  returns the messages it logged together with its result.

  Conventions of the model:
  \<^item> a \<open>char\<close> is one code point below 256 and a \<open>string\<close> a Python \<open>str\<close> of
    such code points, so that \<open>length\<close>, comparison and \<open>sort\<close> agree with Python;
  \<^item> paths are POSIX paths;
  \<^item> JSON numbers are integers;
  \<^item> the clock of a polling loop advances by \<open>time.sleep\<close> only, and times are exact
    numbers: the rounding of floating point is left out;
  \<^item> the command line has been parsed: the record \<open>args\<close> is what \<open>parse_args\<close>
    returned.
\<close>

subsection \<open>Strings and paths\<close>

definition is_space :: "char \<Rightarrow> bool" where
  \<comment> \<open>\<open>str.isspace\<close> on the code points below 256\<close>
  "is_space c = (of_char c \<in> set [9, 10, 11, 12, 13, 28, 29, 30, 31, 32, 133, 160 :: nat])"

definition strip :: "string \<Rightarrow> string" where
  "strip s = rev (dropWhile is_space (rev (dropWhile is_space s)))"

definition lower_char :: "char \<Rightarrow> char" where
  "lower_char c =
     (let n = (of_char c :: nat)
      in if (65 \<le> n \<and> n \<le> 90) \<or> (192 \<le> n \<and> n \<le> 222 \<and> n \<noteq> 215)
         then char_of (n + 32) else c)"

definition lower :: "string \<Rightarrow> string" where
  "lower s = map lower_char s"

fun starts_with :: "string \<Rightarrow> string \<Rightarrow> bool" where
  "starts_with [] s = True"
| "starts_with (a # as) [] = False"
| "starts_with (a # as) (b # bs) = (a = b \<and> starts_with as bs)"

fun contains :: "string \<Rightarrow> string \<Rightarrow> bool" where
  \<comment> \<open>\<open>contains sub s\<close> is Python's \<open>sub in s\<close>\<close>
  "contains sub [] = (sub = [])"
| "contains sub (c # cs) = (starts_with sub (c # cs) \<or> contains sub cs)"

definition basename :: "string \<Rightarrow> string" where
  \<comment> \<open>\<open>os.path.basename\<close>: what follows the last slash\<close>
  "basename p = rev (takeWhile (\<lambda>c. c \<noteq> CHR ''/'') (rev p))"

definition suffix :: "string \<Rightarrow> string" where
  \<comment> \<open>\<open>PurePath.suffix\<close> of a file name (CPython up to 3.13): from the last dot on,
      unless that dot is the first or the last character of the name\<close>
  "suffix name =
     (let r = takeWhile (\<lambda>c. c \<noteq> CHR ''.'') (rev name)
      in if length r < length name \<and> r \<noteq> [] \<and> length r + 1 < length name
         then CHR ''.'' # rev r else [])"

definition isabs :: "string \<Rightarrow> bool" where
  "isabs p = starts_with ''/'' p"

definition path_join :: "string \<Rightarrow> string \<Rightarrow> string" where
  \<comment> \<open>\<open>os.path.join a b\<close> for a relative \<open>b\<close>\<close>
  "path_join a b = (if a = [] \<or> last a = CHR ''/'' then a @ b else a @ ''/'' @ b)"

subsection \<open>Exceptions, log messages and results\<close>

datatype exn =
    TypeError | ValueError | IOError | AttributeError | EOFError | OverflowError
  | WebDriverException | KeyboardInterrupt
  \<comment> \<open>\<open>IOError\<close> is Python's \<open>OSError\<close>, of which it is an alias\<close>

definition is_Exception :: "exn \<Rightarrow> bool" where
  \<comment> \<open>what \<open>except Exception\<close> catches: \<open>KeyboardInterrupt\<close> derives from
      \<open>BaseException\<close> only\<close>
  "is_Exception e = (e \<noteq> KeyboardInterrupt)"

datatype field = Title | Description | Link

datatype question = AskTitle | AskDescription | AskLink | AskBoard | AskLoggedIn

subsection \<open>JSON values and Python dictionaries\<close>

datatype json =
    JNull | JBool bool | JInt int | JStr string
  | JArr "json list" | JObj "(string \<times> json) list"

fun truthy :: "json \<Rightarrow> bool" where
  "truthy JNull = False"
| "truthy (JBool b) = b"
| "truthy (JInt n) = (n \<noteq> 0)"
| "truthy (JStr s) = (s \<noteq> [])"
| "truthy (JArr xs) = (xs \<noteq> [])"
| "truthy (JObj kvs) = (kvs \<noteq> [])"

definition py_or :: "json \<Rightarrow> json \<Rightarrow> json" where
  \<comment> \<open>Python's \<open>a or b\<close>\<close>
  "py_or a b = (if truthy a then a else b)"

text \<open>
  A dictionary is an association list kept by \<open>AList.update\<close>: an existing key keeps
  its place and gets the new value, a new key goes to the end, as in a Python
  \<open>dict\<close>. Keys are JSON values; \<open>True\<close> and \<open>1\<close> are the same key in Python.
\<close>

type_synonym pydict = "(json \<times> json) list"

fun key_norm :: "json \<Rightarrow> json" where
  "key_norm (JBool b) = JInt (if b then 1 else 0)"
| "key_norm j = j"

fun hashable :: "json \<Rightarrow> bool" where
  "hashable (JArr xs) = False"
| "hashable (JObj kvs) = False"
| "hashable j = True"

definition dict_get :: "pydict \<Rightarrow> string \<Rightarrow> json \<Rightarrow> json" where
  \<comment> \<open>\<open>d.get(key, default)\<close>\<close>
  "dict_get d k dflt = (case map_of d (JStr k) of None \<Rightarrow> dflt | Some v \<Rightarrow> v)"

definition obj_keys :: "(string \<times> json) list \<Rightarrow> string list" where
  \<comment> \<open>the keys of a parsed JSON object, a repeated key counted once\<close>
  "obj_keys kvs = map fst (fold (\<lambda>kv d. AList.update (fst kv) (snd kv) d) kvs [])"

fun pair_of :: "json \<Rightarrow> exn + (json \<times> json)" where
  \<comment> \<open>one element of the sequence given to \<open>dict.update\<close>: it must be iterable, of
      length two, and its first item hashable\<close>
  "pair_of (JStr s) = (case s of [a, b] \<Rightarrow> Inr (JStr [a], JStr [b]) | _ \<Rightarrow> Inl ValueError)"
| "pair_of (JArr xs) =
     (case xs of [k, v] \<Rightarrow> if hashable k then Inr (k, v) else Inl TypeError
      | _ \<Rightarrow> Inl ValueError)"
| "pair_of (JObj kvs) =
     (case obj_keys kvs of [a, b] \<Rightarrow> Inr (JStr a, JStr b) | _ \<Rightarrow> Inl ValueError)"
| "pair_of j = Inl TypeError"

fun update_seq :: "pydict \<Rightarrow> json list \<Rightarrow> pydict \<times> exn option" where
  \<comment> \<open>the pairs are stored one by one: those before a bad element stay stored\<close>
  "update_seq d [] = (d, None)"
| "update_seq d (x # xs) =
     (case pair_of x of
        Inl e \<Rightarrow> (d, Some e)
      | Inr (k, v) \<Rightarrow> update_seq (AList.update (key_norm k) v d) xs)"

fun dict_update :: "pydict \<Rightarrow> json \<Rightarrow> pydict \<times> exn option" where
  \<comment> \<open>\<open>d.update(j)\<close>: the dictionary afterwards and the exception raised, if any\<close>
  "dict_update d (JObj kvs) =
     (fold (\<lambda>kv d'. AList.update (JStr (fst kv)) (snd kv) d') kvs d, None)"
| "dict_update d (JArr xs) = update_seq d xs"
| "dict_update d (JStr s) = (if s = [] then (d, None) else (d, Some ValueError))"
| "dict_update d j = (d, Some TypeError)"

subsection \<open>Constants\<close>

definition SUPPORTED_EXTENSIONS :: "string list" where
  "SUPPORTED_EXTENSIONS =
     [''.jpg'', ''.jpeg'', ''.png'', ''.gif'', ''.webp'', ''.bmp'', ''.tiff'']"

definition DEFAULT_IMAGES_FOLDER :: string where
  "DEFAULT_IMAGES_FOLDER = ''bulk_post_pinterest''"

definition PINTEREST_LOGIN_URL :: string where
  "PINTEREST_LOGIN_URL = ''https://www.pinterest.com/login/''"

definition PINTEREST_PIN_BUILDER_URL :: string where
  "PINTEREST_PIN_BUILDER_URL = ''https://www.pinterest.com/pin-builder/''"

subsection \<open>What the script logs, prints and does to the browser\<close>

datatype event =
    Info_config \<comment> \<open>line 92\<close>
  | Warn_config \<comment> \<open>line 94: could not read config file, using defaults\<close>
  | Info_csv nat \<comment> \<open>line 120, with \<open>len(metadata)\<close>\<close>
  | Warn_csv \<comment> \<open>line 122: could not read CSV file, skipping\<close>
  | Error_no_folder \<comment> \<open>line 130\<close>
  | Error_no_images \<comment> \<open>line 139\<close>
  | Info_found nat \<comment> \<open>line 142\<close>
  | Asked question \<comment> \<open>a call of \<open>input\<close>\<close>
  | Info_starting_chrome \<comment> \<open>line 405\<close>
  | Error_chrome \<comment> \<open>lines 161 and 162\<close>
  | Driver_created bool \<comment> \<open>line 159, with the headless flag\<close>
  | Opened string \<comment> \<open>\<open>driver.get\<close> of a URL\<close>
  | Polled nat \<comment> \<open>line 193: \<open>driver.current_url\<close> read, so many seconds into the wait\<close>
  | Info_login_detected \<comment> \<open>line 195\<close>
  | Error_login \<comment> \<open>line 203\<close>
  | Info_start nat \<comment> \<open>line 418\<close>
  | Posting nat string \<comment> \<open>line 429: the index of the pin and the file name\<close>
  | Uploaded string \<comment> \<open>line 227\<close>
  | Fill_try field string \<comment> \<open>the \<open>try\<close> block of one field entered with its value\<close>
  | Warn_fill field \<comment> \<open>lines 243, 256, 268\<close>
  | Board_try json \<comment> \<open>\<open>select_board\<close> entered\<close>
  | Warn_board \<comment> \<open>lines 278 and 306\<close>
  | Warn_publish \<comment> \<open>line 319\<close>
  | Pin_ok nat \<comment> \<open>line 447\<close>
  | Pin_failed nat string \<comment> \<open>line 451\<close>
  | Summary nat nat nat \<comment> \<open>line 456: posted, failed, total\<close>
  | Info_interrupted \<comment> \<open>line 460\<close>
  | Quit \<comment> \<open>\<open>driver.quit\<close>\<close>
  | Info_closed \<comment> \<open>line 464\<close>

datatype 'a res = Return 'a | SysExit nat | Raised exn

datatype outcome = Finished | Exited nat | Uncaught exn

fun exit_code :: "outcome \<Rightarrow> nat" where
  \<comment> \<open>the status of the process: 0 when \<open>main\<close> returns, the argument of \<open>sys.exit\<close>,
      1 after a traceback (130 from the shell when the exception is \<open>KeyboardInterrupt\<close>)\<close>
  "exit_code Finished = 0"
| "exit_code (Exited n) = n"
| "exit_code (Uncaught e) = (if e = KeyboardInterrupt then 130 else 1)"

subsection \<open>The outside world\<close>

datatype file_read =
    NotAFile \<comment> \<open>\<open>os.path.isfile\<close> is false\<close>
  | OpenFails \<comment> \<open>\<open>open\<close> or a read raises \<open>IOError\<close>\<close>
  | DecodeFails \<comment> \<open>\<open>json.load\<close> raises a \<open>ValueError\<close>: not JSON, or not UTF-8\<close>
  | Content json \<comment> \<open>what \<open>json.load\<close> returns\<close>

datatype cell = Text string | NoValue
  \<comment> \<open>\<open>csv.DictReader\<close> gives the columns that a short line lacks the value \<open>None\<close>\<close>

type_synonym row = "(string \<times> cell) list"

datatype csv_read =
    CsvNotAFile
  | CsvOpenFails
  | CsvRows "row list" bool
      \<comment> \<open>the rows the reader yields, and whether it raises after the last of them
          (\<open>csv.Error\<close>, a decoding \<open>ValueError\<close> or an \<open>IOError\<close>)\<close>

type_synonym dirent = "string \<times> bool"
  \<comment> \<open>an entry \<open>p\<close> of \<open>iterdir\<close>: \<open>str(p)\<close> and \<open>p.is_file()\<close>\<close>

datatype step = Done | Fails exn

record site =
  nav :: step \<comment> \<open>\<open>driver.get\<close> of the pin builder, line 437\<close>
  nap :: step
      \<comment> \<open>what the system does with the pause of line 438 when Python accepts the delay:
          it sleeps, or the call fails (\<open>OSError\<close>), or the operator interrupts it\<close>
  file_input :: step \<comment> \<open>\<open>wait_for_element\<close>, line 441\<close>
  upload :: step \<comment> \<open>the body of \<open>upload_image\<close>\<close>
  title_step :: step \<comment> \<open>lines 235 to 241\<close>
  desc_step :: step \<comment> \<open>lines 247 to 254\<close>
  link_step :: step \<comment> \<open>lines 260 to 266\<close>
  board_step :: step \<comment> \<open>lines 274 to 303; a missing dropdown button counts as a failure\<close>
  saving :: "nat \<Rightarrow> bool"
      \<comment> \<open>whether the page shows the saving indicator, so many seconds into the wait\<close>

record world =
  files :: "string \<Rightarrow> file_read"
  csvs :: "string \<Rightarrow> csv_read"
  dirs :: "string \<Rightarrow> dirent list option" \<comment> \<open>\<open>None\<close>: not a directory\<close>
  script_dir :: string
  stdin :: "string list" \<comment> \<open>the lines the operator types\<close>
  chrome_starts :: bool
  url_at :: "nat \<Rightarrow> string" \<comment> \<open>the location of the browser during the login wait\<close>
  sites :: "nat \<Rightarrow> site"
      \<comment> \<open>how the site and the system behave during the pin of each index\<close>

record args =
  arg_config :: string
  arg_csv :: "string option"
  arg_headless :: bool
  arg_board :: "string option"
  arg_images :: "string option"

subsection \<open>\<open>load_config\<close>\<close>

definition defaults :: pydict where
  "defaults =
     [(JStr ''board_name'', JStr []),
      (JStr ''login_wait_seconds'', JInt 60),
      (JStr ''delay_between_pins'', JInt 2),
      (JStr ''images_folder'', JStr DEFAULT_IMAGES_FOLDER),
      (JStr ''headless'', JBool False)]"

definition load_config :: "(string \<Rightarrow> file_read) \<Rightarrow> string \<Rightarrow> event list \<times> (exn + pydict)" where
  \<comment> \<open>only \<open>ValueError\<close> and \<open>IOError\<close> are caught (line 93); the dictionary returned
      then is \<open>defaults\<close> as \<open>update\<close> left it\<close>
  "load_config fs config_path =
     (if config_path \<noteq> [] \<and> fs config_path \<noteq> NotAFile then
        (case fs config_path of
           NotAFile \<Rightarrow> ([], Inr defaults)
         | OpenFails \<Rightarrow> ([Warn_config], Inr defaults)
         | DecodeFails \<Rightarrow> ([Warn_config], Inr defaults)
         | Content user_config \<Rightarrow>
             (case dict_update defaults user_config of
                (d, None) \<Rightarrow> ([Info_config], Inr d)
              | (d, Some e) \<Rightarrow>
                  if e = ValueError \<or> e = IOError then ([Warn_config], Inr d)
                  else ([], Inl e)))
      else ([], Inr defaults))"

subsection \<open>\<open>load_csv_metadata\<close>\<close>

record pin_meta =
  title :: string
  description :: string
  link :: string
  board :: string

type_synonym metadata = "(string \<times> pin_meta) list"

definition row_get :: "row \<Rightarrow> string \<Rightarrow> cell" where
  \<comment> \<open>\<open>row.get(name, "")\<close>\<close>
  "row_get r name = (case map_of r name of None \<Rightarrow> Text [] | Some c \<Rightarrow> c)"

fun cell_strip :: "cell \<Rightarrow> exn + string" where
  \<comment> \<open>\<open>.strip()\<close>: \<open>None\<close> has no such method\<close>
  "cell_strip (Text s) = Inr (strip s)"
| "cell_strip NoValue = Inl AttributeError"

definition row_meta :: "row \<Rightarrow> exn + pin_meta" where
  \<comment> \<open>lines 114 to 119\<close>
  "row_meta r =
     (case cell_strip (row_get r ''title'') of Inl e \<Rightarrow> Inl e | Inr t \<Rightarrow>
      case cell_strip (row_get r ''description'') of Inl e \<Rightarrow> Inl e | Inr d \<Rightarrow>
      case cell_strip (row_get r ''link'') of Inl e \<Rightarrow> Inl e | Inr l \<Rightarrow>
      case cell_strip (row_get r ''board'') of Inl e \<Rightarrow> Inl e | Inr b \<Rightarrow>
        Inr \<lparr>title = t, description = d, link = l, board = b\<rparr>)"

fun csv_rows :: "row list \<Rightarrow> metadata \<Rightarrow> exn + metadata" where
  \<comment> \<open>the loop of lines 111 to 119\<close>
  "csv_rows [] md = Inr md"
| "csv_rows (r # rs) md =
     (case cell_strip (row_get r ''filename'') of
        Inl e \<Rightarrow> Inl e
      | Inr f \<Rightarrow>
          (let key = basename f
           in if key \<noteq> [] then
                (case row_meta r of
                   Inl e \<Rightarrow> Inl e
                 | Inr m \<Rightarrow> csv_rows rs (AList.update key m md))
              else csv_rows rs md))"

definition load_csv_metadata ::
  "(string \<Rightarrow> csv_read) \<Rightarrow> string option \<Rightarrow> event list \<times> (exn + metadata)" where
  "load_csv_metadata fs csv_path =
     (case csv_path of
        None \<Rightarrow> ([], Inr [])
      | Some path \<Rightarrow>
          if path = [] then ([], Inr [])
          else (case fs path of
                  CsvNotAFile \<Rightarrow> ([], Inr [])
                | CsvOpenFails \<Rightarrow> ([Warn_csv], Inr [])
                | CsvRows rows fails \<Rightarrow>
                    (case csv_rows rows [] of
                       Inl e \<Rightarrow> ([], Inl e)
                     | Inr md \<Rightarrow>
                         if fails then ([Warn_csv], Inr md)
                         else ([Info_csv (length md)], Inr md))))"

subsection \<open>\<open>discover_images\<close>\<close>

definition is_image :: "dirent \<Rightarrow> bool" where
  \<comment> \<open>the filter of line 135\<close>
  "is_image p = (snd p \<and> lower (suffix (basename (fst p))) \<in> set SUPPORTED_EXTENSIONS)"

definition discover_images ::
  "(string \<Rightarrow> dirent list option) \<Rightarrow> string \<Rightarrow> event list \<times> string list res" where
  "discover_images fs folder =
     (case fs folder of
        None \<Rightarrow> ([Error_no_folder], SysExit 1)
      | Some entries \<Rightarrow>
          (let images = sort (map fst (filter is_image entries))
           in if images = [] then ([Error_no_images], SysExit 1)
              else ([Info_found (length images)], Return images)))"

subsection \<open>\<open>create_driver\<close> and \<open>wait_for_login\<close>\<close>

definition create_driver :: "bool \<Rightarrow> bool \<Rightarrow> event list \<times> unit res" where
  \<comment> \<open>\<open>create_driver starts headless\<close>: any failure to start Chrome ends the process\<close>
  "create_driver starts headless_flag =
     (if starts then ([Driver_created headless_flag], Return ())
      else ([Error_chrome], SysExit 1))"

definition ask :: "question \<Rightarrow> string list \<Rightarrow> event list \<times> string list \<times> (exn + string)" where
  \<comment> \<open>\<open>input\<close>: the next line typed, \<open>EOFError\<close> when there is none\<close>
  "ask q inp =
     (case inp of
        [] \<Rightarrow> ([Asked q], [], Inl EOFError)
      | l # ls \<Rightarrow> ([Asked q], ls, Inr l))"

fun seconds_of :: "json \<Rightarrow> int option" where
  \<comment> \<open>the values that are numbers\<close>
  "seconds_of (JInt n) = Some n"
| "seconds_of (JBool b) = Some (if b then 1 else 0)"
| "seconds_of j = None"

definition as_float_ok :: "int \<Rightarrow> bool" where
  \<comment> \<open>the integers that Python converts to a \<open>float\<close>: those that round to a double, the
      largest of which is \<open>2 ^ 1024 - 2 ^ 971\<close>; on the others the conversion raises
      \<open>OverflowError\<close>\<close>
  "as_float_ok n = (\<bar>n\<bar> < 2 ^ 1024 - 2 ^ 970)"

function login_poll :: "(nat \<Rightarrow> string) \<Rightarrow> int \<Rightarrow> nat \<Rightarrow> event list \<times> bool" where
  \<comment> \<open>the loop of lines 192 to 197, \<open>t\<close> seconds after the deadline was computed\<close>
  "login_poll url deadline t =
     (if int t < deadline then
        (if \<not> contains ''/login'' (url t) then ([Polled t, Info_login_detected], True)
         else (case login_poll url deadline (t + 1) of (es, r) \<Rightarrow> (Polled t # es, r)))
      else ([], False))"
  by pat_completeness auto
termination
  by (relation "measure (\<lambda>(url, deadline, t). nat (deadline - int t))") auto

definition wait_for_login ::
  "(nat \<Rightarrow> string) \<Rightarrow> string list \<Rightarrow> json \<Rightarrow> event list \<times> string list \<times> (exn + bool)" where
  \<comment> \<open>line 191, \<open>time.time() + timeout_seconds\<close>, raises \<open>TypeError\<close> on a value that is
      no number and \<open>OverflowError\<close> on an integer that is no \<open>float\<close>\<close>
  "wait_for_login url inp timeout_seconds =
     (case seconds_of timeout_seconds of
        None \<Rightarrow> ([Opened PINTEREST_LOGIN_URL], inp, Inl TypeError)
      | Some n \<Rightarrow>
          if \<not> as_float_ok n then ([Opened PINTEREST_LOGIN_URL], inp, Inl OverflowError)
          else
          (case login_poll url n 0 of
             (es, True) \<Rightarrow> (Opened PINTEREST_LOGIN_URL # es, inp, Inr True)
           | (es, False) \<Rightarrow>
               (case ask AskLoggedIn inp of
                  (qs, inp', Inl e) \<Rightarrow> (Opened PINTEREST_LOGIN_URL # es @ qs, inp', Inl e)
                | (qs, inp', Inr answer) \<Rightarrow>
                    (let choice = lower (strip answer)
                     in if choice = ''y'' then (Opened PINTEREST_LOGIN_URL # es @ qs, inp', Inr True)
                        else (Opened PINTEREST_LOGIN_URL # es @ qs @ [Error_login], inp', Inr False)))))"

subsection \<open>Posting one pin\<close>

type_synonym act = "event list \<times> exn option"
  \<comment> \<open>what a procedure logged, and the exception it raised, if any\<close>

definition seq :: "act \<Rightarrow> act \<Rightarrow> act" where
  \<comment> \<open>one statement after another: the second runs when the first returns\<close>
  "seq a b = (case a of (es, Some e) \<Rightarrow> (es, Some e) | (es, None) \<Rightarrow> (es @ fst b, snd b))"

definition warn_on_Exception :: "event \<Rightarrow> act \<Rightarrow> act" where
  \<comment> \<open>\<open>try: ... except Exception: logger.warning(...)\<close>\<close>
  "warn_on_Exception w a =
     (case a of
        (es, Some e) \<Rightarrow> if is_Exception e then (es @ [w], None) else (es, Some e)
      | (es, None) \<Rightarrow> (es, None))"

definition do_step :: "event \<Rightarrow> step \<Rightarrow> act" where
  \<comment> \<open>some calls on the browser, entered with the event logged\<close>
  "do_step ev s = (case s of Done \<Rightarrow> ([ev], None) | Fails e \<Rightarrow> ([ev], Some e))"

definition upload_image :: "site \<Rightarrow> string \<Rightarrow> act" where
  "upload_image st image_path = do_step (Uploaded image_path) (upload st)"

definition fill_pin_details :: "site \<Rightarrow> string \<Rightarrow> string \<Rightarrow> string \<Rightarrow> act" where
  "fill_pin_details st title_v description_v link_v =
     seq (warn_on_Exception (Warn_fill Title) (do_step (Fill_try Title title_v) (title_step st)))
    (seq (warn_on_Exception (Warn_fill Description)
            (do_step (Fill_try Description description_v) (desc_step st)))
         (warn_on_Exception (Warn_fill Link) (do_step (Fill_try Link link_v) (link_step st))))"

definition select_board :: "site \<Rightarrow> json \<Rightarrow> act" where
  "select_board st board_name = warn_on_Exception Warn_board (do_step (Board_try board_name) (board_step st))"

function publish_poll :: "(nat \<Rightarrow> bool) \<Rightarrow> nat \<Rightarrow> bool" where
  \<comment> \<open>the loop of lines 312 to 318 with its timeout of 60 seconds\<close>
  "publish_poll sv t =
     (if t < 60 then (if \<not> sv t then True else publish_poll sv (t + 2)) else False)"
  by pat_completeness auto
termination
  by (relation "measure (\<lambda>(sv, t). 60 - t)") auto

definition wait_for_publish :: "site \<Rightarrow> event list \<times> bool" where
  "wait_for_publish st = (if publish_poll (saving st) 0 then ([], True) else ([Warn_publish], False))"

definition post_single_pin :: "site \<Rightarrow> string \<Rightarrow> string \<Rightarrow> string \<Rightarrow> string \<Rightarrow> json \<Rightarrow> act" where
  \<comment> \<open>the result of \<open>wait_for_publish\<close> is dropped (line 330)\<close>
  "post_single_pin st image_path title_v description_v link_v board_name =
     seq (upload_image st image_path)
    (seq (fill_pin_details st title_v description_v link_v)
    (seq (if truthy board_name then select_board st board_name else ([], None))
         (fst (wait_for_publish st), None)))"

definition system_sleep :: "step \<Rightarrow> act" where
  "system_sleep os = ([], case os of Done \<Rightarrow> None | Fails e \<Rightarrow> Some e)"

fun sleep :: "step \<Rightarrow> json \<Rightarrow> act" where
  \<comment> \<open>\<open>time.sleep\<close> of a value of the configuration, \<open>sleep os secs\<close>: the seconds
      are first converted to nanoseconds in 64 bits (\<open>OverflowError\<close> beyond
      9223372036 seconds either way), a negative delay is refused (\<open>ValueError\<close>), and
      then the system is called\<close>
  "sleep os (JInt n) =
     (if n < - 9223372036 \<or> 9223372036 < n then ([], Some OverflowError)
      else if n < 0 then ([], Some ValueError)
      else system_sleep os)"
| "sleep os (JBool b) = system_sleep os"
| "sleep os j = ([], Some TypeError)"

subsection \<open>The posting loop of \<open>main\<close>\<close>

text \<open>The variables of \<open>main\<close> that the loop reads.\<close>

record frame =
  config :: pydict
  csv_metadata :: metadata
  default_title :: string
  default_description :: string
  default_link :: string
  board_name :: json

definition meta_or :: "pin_meta option \<Rightarrow> (pin_meta \<Rightarrow> string) \<Rightarrow> string \<Rightarrow> string" where
  \<comment> \<open>\<open>meta.get(key) or dflt\<close>, where \<open>meta\<close> is the row of the image or \<open>{}\<close>\<close>
  "meta_or meta key dflt =
     (case meta of None \<Rightarrow> dflt | Some m \<Rightarrow> if key m \<noteq> [] then key m else dflt)"

definition pin_board :: "pin_meta option \<Rightarrow> json \<Rightarrow> json" where
  \<comment> \<open>line 427\<close>
  "pin_board meta dflt =
     (case meta of None \<Rightarrow> dflt | Some m \<Rightarrow> if board m \<noteq> [] then JStr (board m) else dflt)"

definition pin_try :: "frame \<Rightarrow> site \<Rightarrow> string \<Rightarrow> act" where
  \<comment> \<open>the \<open>try\<close> block of lines 436 to 445\<close>
  "pin_try fr st image_path =
     (let meta = map_of (csv_metadata fr) (basename image_path)
      in seq (do_step (Opened PINTEREST_PIN_BUILDER_URL) (nav st))
        (seq (sleep (nap st) (dict_get (config fr) ''delay_between_pins'' (JInt 2)))
        (seq ([], case file_input st of Done \<Rightarrow> None | Fails e \<Rightarrow> Some e)
             (post_single_pin st image_path
                (meta_or meta title (default_title fr))
                (meta_or meta description (default_description fr))
                (meta_or meta link (default_link fr))
                (pin_board meta (board_name fr))))))"

fun post_loop ::
  "frame \<Rightarrow> (nat \<Rightarrow> site) \<Rightarrow> nat \<Rightarrow> string list \<Rightarrow> nat \<Rightarrow> nat \<Rightarrow> event list \<times> (exn + nat \<times> nat)" where
  \<comment> \<open>lines 420 to 452: \<open>post_loop fr ss i images successful failed\<close>, where \<open>i\<close> is
      the index of the first image of the list\<close>
  "post_loop fr ss i [] successful failed = ([], Inr (successful, failed))"
| "post_loop fr ss i (image_path # rest) successful failed =
     (let filename = basename image_path;
          posting = Posting i filename
      in case pin_try fr (ss i) image_path of
           (es, None) \<Rightarrow>
             (case post_loop fr ss (i + 1) rest (successful + 1) failed of
                (es', r) \<Rightarrow> (posting # es @ [Pin_ok i] @ es', r))
         | (es, Some e) \<Rightarrow>
             if is_Exception e then
               (case post_loop fr ss (i + 1) rest successful (failed + 1) of
                  (es', r) \<Rightarrow> (posting # es @ [Pin_failed i filename] @ es', r))
             else (posting # es, Inl e))"

subsection \<open>\<open>main\<close>\<close>

definition session :: "world \<Rightarrow> frame \<Rightarrow> string list \<Rightarrow> string list \<Rightarrow> event list \<times> outcome" where
  \<comment> \<open>lines 408 to 464, \<open>session w fr images inp\<close>: the \<open>try\<close> block, the handler of
      \<open>KeyboardInterrupt\<close> and the \<open>finally\<close> block; \<open>total\<close> is \<open>len(images)\<close> (line 414)\<close>
  "session w fr images inp =
     (case wait_for_login (url_at w) inp (dict_get (config fr) ''login_wait_seconds'' (JInt 60)) of
        (es, inp', Inl e) \<Rightarrow>
          if e = KeyboardInterrupt then (es @ [Info_interrupted, Quit, Info_closed], Finished)
          else (es @ [Quit, Info_closed], Uncaught e)
      | (es, inp', Inr False) \<Rightarrow> (es @ [Quit] @ [Quit, Info_closed], Exited 1)
      | (es, inp', Inr True) \<Rightarrow>
          (case post_loop fr (sites w) 1 images 0 0 of
             (ps, Inl e) \<Rightarrow>
               if e = KeyboardInterrupt
               then (es @ [Info_start (length images)] @ ps @ [Info_interrupted, Quit, Info_closed], Finished)
               else (es @ [Info_start (length images)] @ ps @ [Quit, Info_closed], Uncaught e)
           | (ps, Inr (successful, failed)) \<Rightarrow>
               (es @ [Info_start (length images)] @ ps
                  @ [Summary successful failed (length images), Quit, Info_closed], Finished)))"

definition opt_str :: "string option \<Rightarrow> json" where
  \<comment> \<open>an optional command line argument: \<open>None\<close> when absent\<close>
  "opt_str a = (case a of None \<Rightarrow> JNull | Some s \<Rightarrow> JStr s)"

definition resolve_folder :: "string \<Rightarrow> json \<Rightarrow> exn + string" where
  \<comment> \<open>lines 378 and 379: \<open>os.path.isabs\<close> raises on a value that is not a string\<close>
  "resolve_folder dir images_folder =
     (case images_folder of
        JStr p \<Rightarrow> Inr (if isabs p then p else path_join dir p)
      | _ \<Rightarrow> Inl TypeError)"

definition collect_defaults ::
  "metadata \<Rightarrow> string list \<Rightarrow> event list \<times> string list \<times> (exn + string \<times> string \<times> string)" where
  \<comment> \<open>lines 388 to 398: the three questions are asked only when there is no metadata\<close>
  "collect_defaults md inp =
     (if md = [] then
        (case ask AskTitle inp of
           (e1, i1, Inl e) \<Rightarrow> (e1, i1, Inl e)
         | (e1, i1, Inr t) \<Rightarrow>
        (case ask AskDescription i1 of
           (e2, i2, Inl e) \<Rightarrow> (e1 @ e2, i2, Inl e)
         | (e2, i2, Inr d) \<Rightarrow>
        (case ask AskLink i2 of
           (e3, i3, Inl e) \<Rightarrow> (e1 @ e2 @ e3, i3, Inl e)
         | (e3, i3, Inr l) \<Rightarrow> (e1 @ e2 @ e3, i3, Inr (strip t, strip d, strip l)))))
      else ([], inp, Inr ([], [], [])))"

definition collect_board :: "json \<Rightarrow> string list \<Rightarrow> event list \<times> string list \<times> (exn + json)" where
  \<comment> \<open>lines 400 to 402\<close>
  "collect_board b inp =
     (if \<not> truthy b then
        (case ask AskBoard inp of
           (es, inp', Inl e) \<Rightarrow> (es, inp', Inl e)
         | (es, inp', Inr answer) \<Rightarrow> (es, inp', Inr (JStr (strip answer))))
      else ([], inp, Inr b))"

definition main_browser :: "world \<Rightarrow> bool \<Rightarrow> frame \<Rightarrow> string list \<Rightarrow> string list \<Rightarrow> event list \<times> outcome" where
  \<comment> \<open>lines 404 to 464\<close>
  "main_browser w headless_flag fr images inp =
     (case create_driver (chrome_starts w) headless_flag of
        (es, Return u) \<Rightarrow>
          (case session w fr images inp of (ss, out) \<Rightarrow> (Info_starting_chrome # es @ ss, out))
      | (es, SysExit n) \<Rightarrow> (Info_starting_chrome # es, Exited n)
      | (es, Raised e) \<Rightarrow> (Info_starting_chrome # es, Uncaught e))"

definition main_images :: "args \<Rightarrow> world \<Rightarrow> pydict \<Rightarrow> string list \<Rightarrow> event list \<times> outcome" where
  \<comment> \<open>lines 384 to 464, with the configuration and the images found\<close>
  "main_images a w cfg images =
     (case load_csv_metadata (csvs w) (arg_csv a) of
        (e1, Inl e) \<Rightarrow> (e1, Uncaught e)
      | (e1, Inr md) \<Rightarrow>
     (case collect_defaults md (stdin w) of
        (e2, i2, Inl e) \<Rightarrow> (e1 @ e2, Uncaught e)
      | (e2, i2, Inr (t, d, l)) \<Rightarrow>
     (case collect_board (py_or (opt_str (arg_board a)) (dict_get cfg ''board_name'' (JStr []))) i2 of
        (e3, i3, Inl e) \<Rightarrow> (e1 @ e2 @ e3, Uncaught e)
      | (e3, i3, Inr b) \<Rightarrow>
     (case main_browser w
             (arg_headless a \<or> truthy (dict_get cfg ''headless'' (JBool False)))
             \<lparr>config = cfg, csv_metadata = md, default_title = t, default_description = d,
              default_link = l, board_name = b\<rparr>
             images i3 of
        (e4, out) \<Rightarrow> (e1 @ e2 @ e3 @ e4, out)))))"

definition main :: "args \<Rightarrow> world \<Rightarrow> event list \<times> outcome" where
  "main a w =
     (case load_config (files w) (arg_config a) of
        (e1, Inl e) \<Rightarrow> (e1, Uncaught e)
      | (e1, Inr cfg) \<Rightarrow>
     (case resolve_folder (script_dir w)
             (py_or (opt_str (arg_images a)) (dict_get cfg ''images_folder'' (JStr DEFAULT_IMAGES_FOLDER))) of
        Inl e \<Rightarrow> (e1, Uncaught e)
      | Inr folder \<Rightarrow>
     (case discover_images (dirs w) folder of
        (e2, SysExit n) \<Rightarrow> (e1 @ e2, Exited n)
      | (e2, Raised e) \<Rightarrow> (e1 @ e2, Uncaught e)
      | (e2, Return images) \<Rightarrow>
          (case main_images a w cfg images of (e3, out) \<Rightarrow> (e1 @ e2 @ e3, out)))))"

subsection \<open>Notions used in the statements and the proofs\<close>

fun cell_text :: "cell \<Rightarrow> string" where
  "cell_text (Text s) = s"
| "cell_text NoValue = []"

definition complete :: "row \<Rightarrow> bool" where
  \<comment> \<open>a row of a line that is not short: each of the five columns read holds a string\<close>
  "complete r =
     (row_get r ''filename'' \<noteq> NoValue \<and> row_get r ''title'' \<noteq> NoValue
      \<and> row_get r ''description'' \<noteq> NoValue \<and> row_get r ''link'' \<noteq> NoValue
      \<and> row_get r ''board'' \<noteq> NoValue)"

definition row_key :: "row \<Rightarrow> string" where
  \<comment> \<open>the base name of the file a row names\<close>
  "row_key r = basename (strip (cell_text (row_get r ''filename'')))"

definition row_entry :: "row \<Rightarrow> pin_meta" where
  "row_entry r =
     \<lparr>title = strip (cell_text (row_get r ''title'')),
      description = strip (cell_text (row_get r ''description'')),
      link = strip (cell_text (row_get r ''link'')),
      board = strip (cell_text (row_get r ''board''))\<rparr>"

definition valid_row :: "row \<Rightarrow> bool" where
  \<comment> \<open>a row that names a file\<close>
  "valid_row r = (row_key r \<noteq> [])"

definition pin_result :: "frame \<Rightarrow> (nat \<Rightarrow> site) \<Rightarrow> nat \<times> string \<Rightarrow> exn option" where
  \<comment> \<open>what the posting sequence of the image \<open>snd kp\<close>, of index \<open>fst kp\<close>, raises\<close>
  "pin_result fr ss kp = snd (pin_try fr (ss (fst kp)) (snd kp))"

fun attempt_of :: "event \<Rightarrow> (nat \<times> string) list" where
  "attempt_of (Posting i f) = [(i, f)]"
| "attempt_of e = []"

definition attempts :: "event list \<Rightarrow> (nat \<times> string) list" where
  \<comment> \<open>the pins started in a log, in order\<close>
  "attempts es = concat (map attempt_of es)"

fun is_summary :: "event \<Rightarrow> bool" where
  "is_summary (Summary s f t) = True"
| "is_summary e = False"

fun is_step_event :: "event \<Rightarrow> bool" where
  \<comment> \<open>what a posting sequence logs and does\<close>
  "is_step_event (Opened u) = True"
| "is_step_event (Uploaded p) = True"
| "is_step_event (Fill_try f v) = True"
| "is_step_event (Warn_fill f) = True"
| "is_step_event (Board_try b) = True"
| "is_step_event Warn_board = True"
| "is_step_event Warn_publish = True"
| "is_step_event e = False"

fun is_loop_event :: "event \<Rightarrow> bool" where
  "is_loop_event (Posting i f) = True"
| "is_loop_event (Pin_ok i) = True"
| "is_loop_event (Pin_failed i f) = True"
| "is_loop_event e = is_step_event e"

fun fill_of :: "event \<Rightarrow> (field \<times> string) list" where
  "fill_of (Fill_try f v) = [(f, v)]"
| "fill_of e = []"

definition fills :: "event list \<Rightarrow> (field \<times> string) list" where
  \<comment> \<open>the fields whose \<open>try\<close> block was entered, in order, each with the value given to
      \<open>send_keys\<close>\<close>
  "fills es = concat (map fill_of es)"

fun board_of :: "event \<Rightarrow> json list" where
  "board_of (Board_try b) = [b]"
| "board_of e = []"

definition boards :: "event list \<Rightarrow> json list" where
  \<comment> \<open>the boards with which \<open>select_board\<close> was called\<close>
  "boards es = concat (map board_of es)"

definition warned :: "event \<Rightarrow> step \<Rightarrow> event list" where
  "warned w s = (if s = Done then [] else [w])"

definition reaches_fields :: "pydict \<Rightarrow> site \<Rightarrow> bool" where
  \<comment> \<open>the posting sequence gets as far as \<open>fill_pin_details\<close>: the pin builder loads,
      the pause of line 438 returns, the file input is there and the upload goes through\<close>
  "reaches_fields cfg st =
     (nav st = Done \<and> sleep (nap st) (dict_get cfg ''delay_between_pins'' (JInt 2)) = ([], None)
      \<and> file_input st = Done \<and> upload st = Done)"

fun is_login_event :: "event \<Rightarrow> bool" where
  "is_login_event (Opened u) = True"
| "is_login_event (Polled t) = True"
| "is_login_event Info_login_detected = True"
| "is_login_event (Asked q) = True"
| "is_login_event Error_login = True"
| "is_login_event e = False"

fun is_hard_error :: "event \<Rightarrow> bool" where
  \<comment> \<open>the four errors after which the script calls \<open>sys.exit(1)\<close>\<close>
  "is_hard_error Error_no_folder = True"
| "is_hard_error Error_no_images = True"
| "is_hard_error Error_chrome = True"
| "is_hard_error Error_login = True"
| "is_hard_error e = False"

definition plain :: "event \<Rightarrow> bool" where
  "plain e = (\<not> is_hard_error e \<and> \<not> is_summary e)"

definition exit_agrees :: "event list \<times> outcome \<Rightarrow> bool" where
  \<comment> \<open>the invariant of the stages of \<open>main\<close>: an exit by \<open>sys.exit\<close> has status 1 and
      comes with one of the four errors and without a summary, a return comes without
      any of them, a traceback without a summary\<close>
  "exit_agrees r =
     (case snd r of
        Finished \<Rightarrow> \<not> list_ex is_hard_error (fst r)
      | Exited n \<Rightarrow> n = 1 \<and> list_ex is_hard_error (fst r) \<and> \<not> list_ex is_summary (fst r)
      | Uncaught e \<Rightarrow> \<not> list_ex is_summary (fst r))"

declare publish_poll.simps [simp del]
declare login_poll.simps [simp del]

subsection \<open>Inputs of the examples\<close>

definition example_rows :: "row list" where
  \<comment> \<open>three lines under the header \<open>filename,title,description,link,board\<close>; the second
      names no file\<close>
  "example_rows =
     [[(''filename'', Text ''a.jpg''), (''title'', Text ''A''), (''description'', Text ''da''),
       (''link'', Text ''la''), (''board'', Text ''Ba'')],
      [(''filename'', Text ''  ''), (''title'', Text ''X''), (''description'', Text []),
       (''link'', Text []), (''board'', Text [])],
      [(''filename'', Text '' pics/b.PNG ''), (''title'', Text ''B''), (''description'', Text []),
       (''link'', Text ''lb''), (''board'', Text [])]]"

definition short_row :: row where
  \<comment> \<open>the line \<open>a.jpg,A\<close> under the same header: the reader gives \<open>None\<close> for the three
      columns the line lacks\<close>
  "short_row =
     [(''filename'', Text ''a.jpg''), (''title'', Text ''A''), (''description'', NoValue),
      (''link'', NoValue), (''board'', NoValue)]"

definition example_entries :: "dirent list" where
  "example_entries =
     [(''/bot/bulk_post_pinterest/c.jpeg'', True), (''/bot/bulk_post_pinterest/b.PNG'', True),
      (''/bot/bulk_post_pinterest/notes.txt'', True), (''/bot/bulk_post_pinterest/a.jpg'', True),
      (''/bot/bulk_post_pinterest/old.png'', False)]"

definition example_metadata :: metadata where
  \<comment> \<open>what \<open>load_csv_metadata\<close> returns for \<open>example_rows\<close>\<close>
  "example_metadata =
     [(''a.jpg'', \<lparr>title = ''A'', description = ''da'', link = ''la'', board = ''Ba''\<rparr>),
      (''b.PNG'', \<lparr>title = ''B'', description = [], link = ''lb'', board = []\<rparr>)]"

definition example_frame :: frame where
  \<comment> \<open>the variables of \<open>main\<close> in a run with the default configuration, the metadata
      above, the board \<open>Travel\<close> on the command line and three images: the three text
      defaults are empty, as lines 388 to 390 leave them when there is metadata\<close>
  "example_frame =
     \<lparr>config = defaults, csv_metadata = example_metadata, default_title = [],
      default_description = [], default_link = [], board_name = JStr ''Travel''\<rparr>"

definition good_site :: site where
  "good_site =
     \<lparr>nav = Done, nap = Done, file_input = Done, upload = Done, title_step = Done,
      desc_step = Done, link_step = Done, board_step = Done, saving = (\<lambda>t. t < 4)\<rparr>"

definition flaky_site :: site where
  \<comment> \<open>the title field cannot be filled and the saving indicator never goes away\<close>
  "flaky_site =
     \<lparr>nav = Done, nap = Done, file_input = Done, upload = Done,
      title_step = Fails WebDriverException, desc_step = Done,
      link_step = Done, board_step = Done, saving = (\<lambda>t. True)\<rparr>"

definition example_images :: "string list" where
  "example_images =
     [''/bot/bulk_post_pinterest/a.jpg'', ''/bot/bulk_post_pinterest/b.PNG'',
      ''/bot/bulk_post_pinterest/c.jpeg'']"

definition smooth_world :: world where
  \<comment> \<open>the folder holds three images, the metadata file has a row for two of them, the
      operator has \<open>T\<close> ready on the keyboard, the browser leaves the login page after two
      seconds and every pin goes through\<close>
  "smooth_world =
     \<lparr>files = (\<lambda>p. NotAFile),
      csvs = (\<lambda>p. if p = ''pins.csv'' then CsvRows example_rows False else CsvNotAFile),
      dirs = (\<lambda>p. if p = ''/bot/bulk_post_pinterest'' then Some example_entries else None),
      script_dir = ''/bot'',
      stdin = [''T'', [], []],
      chrome_starts = True,
      url_at = (\<lambda>t. if t < 2 then ''https://www.pinterest.com/login/''
                     else ''https://www.pinterest.com/''),
      sites = (\<lambda>i. good_site)\<rparr>"

definition example_world :: world where
  \<comment> \<open>the upload of the second pin fails\<close>
  "example_world =
     smooth_world\<lparr>sites := (\<lambda>i. if i = 2 then good_site\<lparr>upload := Fails WebDriverException\<rparr>
                             else good_site)\<rparr>"

definition interrupted_world :: world where
  \<comment> \<open>the operator presses Ctrl-C during the upload of the second pin\<close>
  "interrupted_world =
     smooth_world\<lparr>sites := (\<lambda>i. if i = 2 then good_site\<lparr>upload := Fails KeyboardInterrupt\<rparr>
                             else good_site)\<rparr>"

definition last_interrupted_world :: world where
  \<comment> \<open>the operator presses Ctrl-C during the upload of the third and last pin\<close>
  "last_interrupted_world =
     smooth_world\<lparr>sites := (\<lambda>i. if i = 3 then good_site\<lparr>upload := Fails KeyboardInterrupt\<rparr>
                             else good_site)\<rparr>"

definition all_failing_world :: world where
  \<comment> \<open>the pin builder never loads\<close>
  "all_failing_world =
     smooth_world\<lparr>sites := (\<lambda>i. good_site\<lparr>nav := Fails WebDriverException\<rparr>)\<rparr>"

definition stuck_world :: world where
  \<comment> \<open>the browser never leaves the login page\<close>
  "stuck_world = smooth_world\<lparr>url_at := (\<lambda>t. ''https://www.pinterest.com/login/'')\<rparr>"

definition no_folder_world :: world where
  "no_folder_world = smooth_world\<lparr>dirs := (\<lambda>p. None)\<rparr>"

definition silent_world :: world where
  \<comment> \<open>the standard input is at its end: nothing can be typed\<close>
  "silent_world = smooth_world\<lparr>stdin := []\<rparr>"

definition example_args :: args where
  \<comment> \<open>\<open>main.py --csv pins.csv --board Travel\<close>\<close>
  "example_args =
     \<lparr>arg_config = ''config.json'', arg_csv = Some ''pins.csv'', arg_headless = False,
      arg_board = Some ''Travel'', arg_images = None\<rparr>"

definition plain_args :: args where
  \<comment> \<open>\<open>main.py --board Travel\<close>\<close>
  "plain_args = example_args\<lparr>arg_csv := None\<rparr>"

section \<open>Properties\<close>

subsection \<open>Loading the configuration\<close>

text \<open>
  Claim C5 says that \<open>load_config\<close> never raises, whatever the configuration file
  holds. A file that holds the JSON number \<open>5\<close> parses, \<open>defaults.update(5)\<close> raises
  a \<open>TypeError\<close>, and the handler of line 93 catches \<open>ValueError\<close> and \<open>IOError\<close>
  only: the exception leaves \<open>load_config\<close>.
\<close>

theorem load_config_number_raises:
  "load_config (\<lambda>p. Content (JInt 5)) ''config.json'' = ([], Inl TypeError)"
  by (simp add: load_config_def)

subsection \<open>Finding the images\<close>

text \<open>
  Claim C6: for a folder that holds at least one regular file whose extension, in lower
  case, is in the list of supported extensions, \<open>discover_images\<close> returns the paths
  of exactly those files (each as often as the folder lists it, and nothing else), in
  ascending order.
\<close>

theorem discover_images_exact_sorted:
  assumes "fs folder = Some entries" and "\<exists>p\<in>set entries. is_image p"
  shows "\<exists>images. discover_images fs folder = ([Info_found (length images)], Return images)
     \<and> sorted images
     \<and> mset images = mset (map fst (filter is_image entries))
     \<and> (\<forall>path. path \<in> set images \<longleftrightarrow>
           (path, True) \<in> set entries \<and> lower (suffix (basename path)) \<in> set SUPPORTED_EXTENSIONS)"
proof -
  let ?images = "sort (map fst (filter is_image entries))"
  have ne: "?images \<noteq> []"
    using assms(2) by (auto simp add: filter_empty_conv simp flip: set_empty)
  have mem: "path \<in> set ?images \<longleftrightarrow>
           (path, True) \<in> set entries \<and> lower (suffix (basename path)) \<in> set SUPPORTED_EXTENSIONS" for path
    by (force simp add: is_image_def)
  show ?thesis
    using assms(1) ne mem by (intro exI [of _ ?images]) (simp add: discover_images_def Let_def)
qed

theorem discover_images_exact_sorted_witness:
  "\<exists>images. discover_images (\<lambda>p. Some example_entries) ''/bot/bulk_post_pinterest''
        = ([Info_found (length images)], Return images)
     \<and> sorted images
     \<and> mset images = mset [''/bot/bulk_post_pinterest/c.jpeg'', ''/bot/bulk_post_pinterest/b.PNG'',
                            ''/bot/bulk_post_pinterest/a.jpg'']
     \<and> ''/bot/bulk_post_pinterest/b.PNG'' \<in> set images
     \<and> ''/bot/bulk_post_pinterest/notes.txt'' \<notin> set images"
proof -
  have h: "\<exists>p\<in>set example_entries. is_image p"
    by code_simp
  have f: "map fst (filter is_image example_entries)
         = [''/bot/bulk_post_pinterest/c.jpeg'', ''/bot/bulk_post_pinterest/b.PNG'',
            ''/bot/bulk_post_pinterest/a.jpg'']"
    by code_simp
  obtain images where
    d: "discover_images (\<lambda>p. Some example_entries) ''/bot/bulk_post_pinterest''
          = ([Info_found (length images)], Return images)"
    and s: "sorted images"
    and m: "mset images = mset (map fst (filter is_image example_entries))"
    using discover_images_exact_sorted [of "\<lambda>p. Some example_entries" "''/bot/bulk_post_pinterest''"
        example_entries, OF refl h]
    by blast
  have "set images = set (map fst (filter is_image example_entries))"
    using m by (rule mset_eq_setD)
  then have "''/bot/bulk_post_pinterest/b.PNG'' \<in> set images"
    and "''/bot/bulk_post_pinterest/notes.txt'' \<notin> set images"
    unfolding f by simp_all
  then show ?thesis
    using d s m unfolding f by blast
qed

subsection \<open>Loading the metadata\<close>

lemma cell_strip_text: "c \<noteq> NoValue \<Longrightarrow> cell_strip c = Inr (strip (cell_text c))"
  by (cases c) simp_all

lemma row_meta_complete: "complete r \<Longrightarrow> row_meta r = Inr (row_entry r)"
  by (simp add: complete_def row_meta_def row_entry_def cell_strip_text)

lemma update_fresh: "k \<notin> fst ` set al \<Longrightarrow> AList.update k v al = al @ [(k, v)]"
  by (induction al) auto

lemma csv_rows_complete:
  assumes "\<forall>r\<in>set rows. complete r"
    and "distinct (map fst md @ map row_key (filter valid_row rows))"
  shows "csv_rows rows md = Inr (md @ map (\<lambda>r. (row_key r, row_entry r)) (filter valid_row rows))"
  using assms
proof (induction rows arbitrary: md)
  case Nil
  then show ?case by simp
next
  case (Cons r rows)
  have c: "complete r" using Cons.prems(1) by simp
  then have f: "cell_strip (row_get r ''filename'') = Inr (strip (cell_text (row_get r ''filename'')))"
    by (simp add: complete_def cell_strip_text)
  show ?case
  proof (cases "valid_row r")
    case True
    then have k: "row_key r \<noteq> []" by (simp add: valid_row_def)
    have fresh: "row_key r \<notin> fst ` set md" using Cons.prems(2) True by auto
    have d: "distinct (map fst (md @ [(row_key r, row_entry r)]) @ map row_key (filter valid_row rows))"
      using Cons.prems(2) True by auto
    have step: "csv_rows (r # rows) md = csv_rows rows (AList.update (row_key r) (row_entry r) md)"
      using k c f by (simp add: row_key_def row_meta_complete Let_def)
    have "csv_rows rows (md @ [(row_key r, row_entry r)])
        = Inr ((md @ [(row_key r, row_entry r)]) @ map (\<lambda>r. (row_key r, row_entry r)) (filter valid_row rows))"
      using Cons.IH [OF _ d] Cons.prems(1) by simp
    then show ?thesis
      using True fresh by (simp add: step update_fresh del: csv_rows.simps)
  next
    case False
    then have k: "row_key r = []" by (simp add: valid_row_def)
    have d: "distinct (map fst md @ map row_key (filter valid_row rows))"
      using Cons.prems(2) False by simp
    have step: "csv_rows (r # rows) md = csv_rows rows md"
      using k f by (simp add: row_key_def Let_def)
    show ?thesis
      using False Cons.IH [OF _ d] Cons.prems(1) by (simp add: step del: csv_rows.simps)
  qed
qed

text \<open>
  On a file whose lines are all complete and whose rows that name a file name distinct
  base names, the loader returns one entry for each such row, under the base name and
  holding the stripped fields of the row, and no entry for a row whose file name is empty
  or absent; no metadata file, a path that is no file and a file that cannot be opened
  yield the empty mapping.
\<close>

lemma load_csv_metadata_entries:
  assumes "\<forall>r\<in>set rows. complete r"
    and "distinct (map row_key (filter valid_row rows))"
    and "path \<noteq> []"
  shows "snd (load_csv_metadata fs None) = Inr []
       \<and> (fs path = CsvNotAFile \<or> fs path = CsvOpenFails \<longrightarrow> snd (load_csv_metadata fs (Some path)) = Inr [])
       \<and> (fs path = CsvRows rows False \<longrightarrow>
            load_csv_metadata fs (Some path)
              = ([Info_csv (length (filter valid_row rows))],
                 Inr (map (\<lambda>r. (row_key r, row_entry r)) (filter valid_row rows))))"
proof -
  have "csv_rows rows [] = Inr ([] @ map (\<lambda>r. (row_key r, row_entry r)) (filter valid_row rows))"
    by (rule csv_rows_complete) (use assms in simp_all)
  then show ?thesis
    using assms(3) by (auto simp add: load_csv_metadata_def)
qed

text \<open>
  Claim C7 says that a read error yields an empty mapping and that the loader never
  aborts the run. The handler of line 121 is there for that: it logs that the file is
  skipped. It misses two inputs.

  When the reader yields a row and then raises (on a field longer than the limit of the
  \<open>csv\<close> module, say), the handler logs its warning, and \<open>load_csv_metadata\<close>
  returns the dictionary with the row read before the error in it, where every other
  failure gives the empty mapping.

  When a line is shorter than the header, \<open>csv.DictReader\<close> gives \<open>None\<close> for the columns
  the line lacks, \<open>row.get("description", "").strip()\<close> raises \<open>AttributeError\<close> on line
  116, the handler does not catch it, and the exception leaves \<open>load_csv_metadata\<close> and
  \<open>main\<close>: the run ends after the images were found.
\<close>

theorem load_csv_metadata_failures:
  "load_csv_metadata
     (\<lambda>p. CsvRows [[(''filename'', Text ''a.jpg''), (''title'', Text ''A''),
                      (''description'', Text ''da''), (''link'', Text ''la''),
                      (''board'', Text ''Ba'')]] True)
     (Some ''pins.csv'')
     = ([Warn_csv],
        Inr [(''a.jpg'', \<lparr>title = ''A'', description = ''da'', link = ''la'', board = ''Ba''\<rparr>)])
   \<and> load_csv_metadata (\<lambda>p. CsvRows [short_row] False) (Some ''pins.csv'')
     = ([], Inl AttributeError)
   \<and> main example_args (smooth_world\<lparr>csvs := (\<lambda>p. CsvRows [short_row] False)\<rparr>)
     = ([Info_found 3], Uncaught AttributeError)"
  by code_simp

subsection \<open>The posting sequence and the posting loop\<close>

lemma seq_all:
  "list_all P (fst a) \<Longrightarrow> list_all P (fst b) \<Longrightarrow> list_all P (fst (seq a b))"
  by (cases a) (auto simp add: seq_def split: option.splits)

lemma warn_all:
  "P w \<Longrightarrow> list_all P (fst a) \<Longrightarrow> list_all P (fst (warn_on_Exception w a))"
  by (cases a) (auto simp add: warn_on_Exception_def split: option.splits)

lemma do_step_all: "P ev \<Longrightarrow> list_all P (fst (do_step ev s))"
  by (simp add: do_step_def split: step.splits)

lemma sleep_fst: "fst (sleep os j) = []"
  by (cases j) (simp_all add: system_sleep_def)

text \<open>
  A delay of ten thousand million seconds is more than \<open>time.sleep\<close> takes: the pause
  raises, before the file input is looked for, and the loop counts the pin as failed.
\<close>

lemma long_delay_fails_the_pin:
  "sleep os (JInt 10000000000) = ([], Some OverflowError)"
  "post_loop (example_frame\<lparr>config := [(JStr ''delay_between_pins'', JInt 10000000000)]\<rparr>)
     (\<lambda>k. good_site) 1 [''/bot/bulk_post_pinterest/a.jpg''] 0 0
     = ([Posting 1 ''a.jpg'', Opened PINTEREST_PIN_BUILDER_URL, Pin_failed 1 ''a.jpg''], Inr (0, 1))"
  by code_simp+

lemma post_single_pin_all:
  assumes "P (Uploaded p)" "P (Fill_try Title t)" "P (Fill_try Description d)" "P (Fill_try Link l)"
    "P (Warn_fill Title)" "P (Warn_fill Description)" "P (Warn_fill Link)"
    "P (Board_try b)" "P Warn_board" "P Warn_publish"
  shows "list_all P (fst (post_single_pin st p t d l b))"
  unfolding post_single_pin_def fill_pin_details_def select_board_def upload_image_def
    wait_for_publish_def
  by (intro seq_all warn_all do_step_all) (auto simp add: assms intro!: warn_all do_step_all)

lemma pin_try_step_events: "list_all is_step_event (fst (pin_try fr st p))"
  unfolding pin_try_def Let_def
  by (intro seq_all do_step_all post_single_pin_all) (simp_all add: sleep_fst)

lemma step_event_is_loop_event: "is_step_event e \<Longrightarrow> is_loop_event e"
  by (cases e) simp_all

lemma step_event_not_attempt: "is_step_event e \<Longrightarrow> attempt_of e = []"
  by (cases e) simp_all

lemma loop_event_not_summary: "is_loop_event e \<Longrightarrow> \<not> is_summary e"
  by (cases e) simp_all

lemma attempts_append: "attempts (xs @ ys) = attempts xs @ attempts ys"
  by (simp add: attempts_def)

lemma attempts_steps: "list_all is_step_event es \<Longrightarrow> attempts es = []"
  by (induction es) (simp_all add: attempts_def step_event_not_attempt)

lemma attempts_pin_try: "attempts (fst (pin_try fr st p)) = []"
  by (rule attempts_steps) (rule pin_try_step_events)

lemma pin_try_loop_events: "list_all is_loop_event (fst (pin_try fr st p))"
  using pin_try_step_events [of fr st p] by (auto simp add: list_all_iff step_event_is_loop_event)

lemma post_loop_events: "list_all is_loop_event (fst (post_loop fr ss i images s f))"
proof (induction images arbitrary: i s f)
  case Nil
  then show ?case by simp
next
  case (Cons p images)
  obtain es r where t: "pin_try fr (ss i) p = (es, r)" by (cases "pin_try fr (ss i) p")
  have es: "list_all is_loop_event es"
    using pin_try_loop_events [of fr "ss i" p] t by simp
  show ?case
  proof (cases r)
    case None
    obtain es' r' where l: "post_loop fr ss (i + 1) images (s + 1) f = (es', r')"
      by (cases "post_loop fr ss (i + 1) images (s + 1) f")
    have "list_all is_loop_event es'" using Cons.IH [of "i + 1" "s + 1" f] l by simp
    then show ?thesis using t None l es by (simp add: Let_def)
  next
    case (Some e)
    obtain es' r' where l: "post_loop fr ss (i + 1) images s (f + 1) = (es', r')"
      by (cases "post_loop fr ss (i + 1) images s (f + 1)")
    have "list_all is_loop_event es'" using Cons.IH [of "i + 1" s "f + 1"] l by simp
    then show ?thesis using t Some l es by (simp add: Let_def)
  qed
qed

lemma post_loop_completes:
  assumes "\<forall>kp\<in>set (enumerate i images). pin_result fr ss kp \<noteq> Some KeyboardInterrupt"
  shows "\<exists>es. post_loop fr ss i images s f
           = (es, Inr (s + length (filter (\<lambda>kp. pin_result fr ss kp = None) (enumerate i images)),
                       f + length (filter (\<lambda>kp. pin_result fr ss kp \<noteq> None) (enumerate i images))))
         \<and> attempts es = map (\<lambda>kp. (fst kp, basename (snd kp))) (enumerate i images)
         \<and> (\<forall>kp\<in>set (enumerate i images).
               if pin_result fr ss kp = None then Pin_ok (fst kp) \<in> set es
               else Pin_failed (fst kp) (basename (snd kp)) \<in> set es)"
  using assms
proof (induction images arbitrary: i s f)
  case Nil
  then show ?case by (simp add: attempts_def)
next
  case (Cons p images)
  obtain es r where t: "pin_try fr (ss i) p = (es, r)" by (cases "pin_try fr (ss i) p")
  have r: "pin_result fr ss (i, p) = r" using t by (simp add: pin_result_def)
  have a: "attempts es = []" using attempts_pin_try [of fr "ss i" p] t by simp
  have rest: "\<forall>kp\<in>set (enumerate (Suc i) images). pin_result fr ss kp \<noteq> Some KeyboardInterrupt"
    using Cons.prems by simp
  show ?case
  proof (cases r)
    case None
    from Cons.IH [OF rest, of "s + 1" f] obtain es' where
      l: "post_loop fr ss (Suc i) images (s + 1) f
           = (es', Inr (s + 1 + length (filter (\<lambda>kp. pin_result fr ss kp = None) (enumerate (Suc i) images)),
                       f + length (filter (\<lambda>kp. pin_result fr ss kp \<noteq> None) (enumerate (Suc i) images))))"
      and at: "attempts es' = map (\<lambda>kp. (fst kp, basename (snd kp))) (enumerate (Suc i) images)"
      and ev: "\<forall>kp\<in>set (enumerate (Suc i) images).
               if pin_result fr ss kp = None then Pin_ok (fst kp) \<in> set es'
               else Pin_failed (fst kp) (basename (snd kp)) \<in> set es'"
      by blast
    show ?thesis
      using t None r l at ev a
      by (auto simp add: Let_def attempts_append attempts_def)
  next
    case (Some e)
    then have e: "is_Exception e" using Cons.prems r by (simp add: is_Exception_def)
    from Cons.IH [OF rest, of s "f + 1"] obtain es' where
      l: "post_loop fr ss (Suc i) images s (f + 1)
           = (es', Inr (s + length (filter (\<lambda>kp. pin_result fr ss kp = None) (enumerate (Suc i) images)),
                       f + 1 + length (filter (\<lambda>kp. pin_result fr ss kp \<noteq> None) (enumerate (Suc i) images))))"
      and at: "attempts es' = map (\<lambda>kp. (fst kp, basename (snd kp))) (enumerate (Suc i) images)"
      and ev: "\<forall>kp\<in>set (enumerate (Suc i) images).
               if pin_result fr ss kp = None then Pin_ok (fst kp) \<in> set es'
               else Pin_failed (fst kp) (basename (snd kp)) \<in> set es'"
      by blast
    show ?thesis
      using t Some r l at ev a e
      by (auto simp add: Let_def attempts_append attempts_def)
  qed
qed

lemma post_loop_interrupted:
  assumes "\<exists>kp\<in>set (enumerate i images). pin_result fr ss kp = Some KeyboardInterrupt"
  shows "snd (post_loop fr ss i images s f) = Inl KeyboardInterrupt"
  using assms
proof (induction images arbitrary: i s f)
  case Nil
  then show ?case by simp
next
  case (Cons p images)
  obtain es r where t: "pin_try fr (ss i) p = (es, r)" by (cases "pin_try fr (ss i) p")
  have r: "pin_result fr ss (i, p) = r" using t by (simp add: pin_result_def)
  show ?case
  proof (cases "r = Some KeyboardInterrupt")
    case True
    then show ?thesis using t by (simp add: Let_def is_Exception_def)
  next
    case False
    then have rest: "\<exists>kp\<in>set (enumerate (Suc i) images). pin_result fr ss kp = Some KeyboardInterrupt"
      using Cons.prems r by auto
    show ?thesis
    proof (cases r)
      case None
      then show ?thesis
        using t Cons.IH [OF rest, of "s + 1" f]
        by (auto simp add: Let_def split: prod.splits)
    next
      case (Some e)
      then have "is_Exception e" using False by (simp add: is_Exception_def)
      then show ?thesis
        using t Some Cons.IH [OF rest, of s "f + 1"]
        by (auto simp add: Let_def split: prod.splits)
    qed
  qed
qed

lemma try_step:
  "s \<noteq> Fails KeyboardInterrupt \<Longrightarrow> warn_on_Exception w (do_step ev s) = (ev # warned w s, None)"
  by (cases s) (simp_all add: warn_on_Exception_def do_step_def warned_def is_Exception_def)

lemma seq_None: "seq (es, None) b = (es @ fst b, snd b)"
  by (simp add: seq_def)

lemma do_step_Done: "do_step ev Done = ([ev], None)"
  by (simp add: do_step_def)

lemma fill_pin_details_warns:
  assumes "title_step st \<noteq> Fails KeyboardInterrupt"
    and "desc_step st \<noteq> Fails KeyboardInterrupt"
    and "link_step st \<noteq> Fails KeyboardInterrupt"
  shows "fill_pin_details st t d l
       = (Fill_try Title t # warned (Warn_fill Title) (title_step st)
          @ Fill_try Description d # warned (Warn_fill Description) (desc_step st)
          @ Fill_try Link l # warned (Warn_fill Link) (link_step st), None)"
  by (simp add: fill_pin_details_def try_step assms seq_None)

lemma publish_poll_iff:
  "publish_poll sv t \<longleftrightarrow> (\<exists>k. t + 2 * k < 60 \<and> \<not> sv (t + 2 * k))"
proof (induction sv t rule: publish_poll.induct)
  case (1 sv t)
  show ?case
  proof (cases "t < 60")
    case False
    then show ?thesis by (simp add: publish_poll.simps [of sv t])
  next
    case True
    show ?thesis
    proof (cases "sv t")
      case False
      have "t + 2 * 0 < 60 \<and> \<not> sv (t + 2 * 0)" using True False by simp
      then have "\<exists>k. t + 2 * k < 60 \<and> \<not> sv (t + 2 * k)" by blast
      then show ?thesis using True False by (simp add: publish_poll.simps [of sv t])
    next
      case sv: True
      have "(\<exists>k. t + 2 * k < 60 \<and> \<not> sv (t + 2 * k)) \<longleftrightarrow> (\<exists>k. t + 2 + 2 * k < 60 \<and> \<not> sv (t + 2 + 2 * k))"
      proof
        assume "\<exists>k. t + 2 * k < 60 \<and> \<not> sv (t + 2 * k)"
        then obtain k where k: "t + 2 * k < 60" "\<not> sv (t + 2 * k)" by blast
        then have "k \<noteq> 0" using sv by (cases k) auto
        then obtain j where "k = Suc j" by (cases k) auto
        then have "t + 2 + 2 * j < 60 \<and> \<not> sv (t + 2 + 2 * j)" using k by simp
        then show "\<exists>k. t + 2 + 2 * k < 60 \<and> \<not> sv (t + 2 + 2 * k)" by blast
      next
        assume "\<exists>k. t + 2 + 2 * k < 60 \<and> \<not> sv (t + 2 + 2 * k)"
        then obtain j where "t + 2 + 2 * j < 60" "\<not> sv (t + 2 + 2 * j)" by blast
        then have "t + 2 * Suc j < 60 \<and> \<not> sv (t + 2 * Suc j)" by simp
        then show "\<exists>k. t + 2 * k < 60 \<and> \<not> sv (t + 2 * k)" by blast
      qed
      then show ?thesis
        using True sv "1.IH" by (simp add: publish_poll.simps [of sv t])
    qed
  qed
qed

lemma publish_timeout_iff: "\<not> publish_poll sv 0 \<longleftrightarrow> (\<forall>k<30. sv (2 * k))"
proof -
  have "(\<exists>k. 2 * k < 60 \<and> \<not> sv (2 * k)) \<longleftrightarrow> (\<exists>k<30. \<not> sv (2 * k))"
    by auto
  then show ?thesis by (simp add: publish_poll_iff)
qed

lemma pin_try_benign:
  assumes "nav st = Done" and "file_input st = Done" and "upload st = Done"
    and "sleep (nap st) (dict_get (config fr) ''delay_between_pins'' (JInt 2)) = ([], None)"
    and "title_step st \<noteq> Fails KeyboardInterrupt"
    and "desc_step st \<noteq> Fails KeyboardInterrupt"
    and "link_step st \<noteq> Fails KeyboardInterrupt"
    and "truthy (pin_board (map_of (csv_metadata fr) (basename p)) (board_name fr))
           \<longrightarrow> board_step st \<noteq> Fails KeyboardInterrupt"
  shows "pin_try fr st p
       = (Opened PINTEREST_PIN_BUILDER_URL # Uploaded p
          # Fill_try Title (meta_or (map_of (csv_metadata fr) (basename p)) title (default_title fr))
          # warned (Warn_fill Title) (title_step st)
          @ Fill_try Description (meta_or (map_of (csv_metadata fr) (basename p)) description (default_description fr))
          # warned (Warn_fill Description) (desc_step st)
          @ Fill_try Link (meta_or (map_of (csv_metadata fr) (basename p)) link (default_link fr))
          # warned (Warn_fill Link) (link_step st)
          @ (if truthy (pin_board (map_of (csv_metadata fr) (basename p)) (board_name fr))
             then Board_try (pin_board (map_of (csv_metadata fr) (basename p)) (board_name fr))
                  # warned Warn_board (board_step st)
             else [])
          @ (if publish_poll (saving st) 0 then [] else [Warn_publish]), None)"
  using assms
  by (simp add: pin_try_def post_single_pin_def upload_image_def do_step_Done seq_None
      fill_pin_details_warns select_board_def try_step wait_for_publish_def Let_def)

lemma pin_try_interrupted_in_the_fields:
  assumes "reaches_fields (config fr) st"
    and "title_step st = Fails KeyboardInterrupt \<or> desc_step st = Fails KeyboardInterrupt
         \<or> link_step st = Fails KeyboardInterrupt
         \<or> (truthy (pin_board (map_of (csv_metadata fr) (basename p)) (board_name fr))
              \<and> board_step st = Fails KeyboardInterrupt)"
  shows "snd (pin_try fr st p) = Some KeyboardInterrupt"
  using assms
  by (auto simp add: reaches_fields_def pin_try_def post_single_pin_def upload_image_def
      fill_pin_details_def select_board_def seq_def warn_on_Exception_def do_step_def
      is_Exception_def Let_def split: step.splits)

lemma pin_try_before_the_fields:
  assumes "\<not> reaches_fields (config fr) st"
  shows "fills (fst (pin_try fr st p)) = [] \<and> boards (fst (pin_try fr st p)) = []"
proof -
  obtain r where r: "sleep (nap st) (dict_get (config fr) ''delay_between_pins'' (JInt 2)) = ([], r)"
    using sleep_fst [of "nap st" "dict_get (config fr) ''delay_between_pins'' (JInt 2)"]
    by (cases "sleep (nap st) (dict_get (config fr) ''delay_between_pins'' (JInt 2))") simp
  show ?thesis
    using assms r
    by (cases r)
      (auto simp add: reaches_fields_def pin_try_def post_single_pin_def upload_image_def
        seq_def do_step_def fills_def boards_def Let_def split: step.splits)
qed

lemma fills_simps:
  "fills [] = []"
  "fills (Fill_try f v # es) = (f, v) # fills es"
  "fills (xs @ ys) = fills xs @ fills ys"
  by (simp_all add: fills_def)

lemma fills_other:
  "fill_of e = [] \<Longrightarrow> fills (e # es) = fills es"
  by (simp add: fills_def)

lemma fills_warned: "fill_of w = [] \<Longrightarrow> fills (warned w s) = []"
  by (simp add: warned_def fills_def)

lemma in_warned: "e \<in> set (warned w s) \<longleftrightarrow> e = w \<and> s \<noteq> Done"
  by (auto simp add: warned_def)

lemma boards_simps:
  "boards [] = []"
  "boards (Board_try b # es) = b # boards es"
  "boards (xs @ ys) = boards xs @ boards ys"
  by (simp_all add: boards_def)

lemma boards_other:
  "board_of e = [] \<Longrightarrow> boards (e # es) = boards es"
  by (simp add: boards_def)

lemma boards_warned: "board_of w = [] \<Longrightarrow> boards (warned w s) = []"
  by (simp add: warned_def boards_def)

lemma pin_try_entries:
  assumes "snd (pin_try fr st p) \<noteq> Some KeyboardInterrupt"
  shows "fills (fst (pin_try fr st p))
       = (if reaches_fields (config fr) st
          then [(Title, meta_or (map_of (csv_metadata fr) (basename p)) title (default_title fr)),
                (Description, meta_or (map_of (csv_metadata fr) (basename p)) description (default_description fr)),
                (Link, meta_or (map_of (csv_metadata fr) (basename p)) link (default_link fr))]
          else [])"
    and "boards (fst (pin_try fr st p))
       = (if reaches_fields (config fr) st
             \<and> truthy (pin_board (map_of (csv_metadata fr) (basename p)) (board_name fr))
          then [pin_board (map_of (csv_metadata fr) (basename p)) (board_name fr)]
          else [])"
proof -
  have "fills (fst (pin_try fr st p))
       = (if reaches_fields (config fr) st
          then [(Title, meta_or (map_of (csv_metadata fr) (basename p)) title (default_title fr)),
                (Description, meta_or (map_of (csv_metadata fr) (basename p)) description (default_description fr)),
                (Link, meta_or (map_of (csv_metadata fr) (basename p)) link (default_link fr))]
          else [])
     \<and> boards (fst (pin_try fr st p))
       = (if reaches_fields (config fr) st
             \<and> truthy (pin_board (map_of (csv_metadata fr) (basename p)) (board_name fr))
          then [pin_board (map_of (csv_metadata fr) (basename p)) (board_name fr)]
          else [])"
  proof (cases "reaches_fields (config fr) st")
    case False
    then show ?thesis using pin_try_before_the_fields [of fr st p] by simp
  next
    case True
    note i = pin_try_interrupted_in_the_fields [OF True, of p]
    have t: "title_step st \<noteq> Fails KeyboardInterrupt" using i assms by blast
    have d: "desc_step st \<noteq> Fails KeyboardInterrupt" using i assms by blast
    have l: "link_step st \<noteq> Fails KeyboardInterrupt" using i assms by blast
    have b: "truthy (pin_board (map_of (csv_metadata fr) (basename p)) (board_name fr))
           \<longrightarrow> board_step st \<noteq> Fails KeyboardInterrupt"
      using i assms by blast
    have r: "nav st = Done" "file_input st = Done" "upload st = Done"
      "sleep (nap st) (dict_get (config fr) ''delay_between_pins'' (JInt 2)) = ([], None)"
      using True by (simp_all add: reaches_fields_def)
    note e = pin_try_benign [OF r(1-3) r(4) t d l b]
    show ?thesis
      unfolding e using True
      by (simp add: fills_simps fills_other fills_warned boards_simps boards_other boards_warned)
  qed
  then show "fills (fst (pin_try fr st p))
       = (if reaches_fields (config fr) st
          then [(Title, meta_or (map_of (csv_metadata fr) (basename p)) title (default_title fr)),
                (Description, meta_or (map_of (csv_metadata fr) (basename p)) description (default_description fr)),
                (Link, meta_or (map_of (csv_metadata fr) (basename p)) link (default_link fr))]
          else [])"
    and "boards (fst (pin_try fr st p))
       = (if reaches_fields (config fr) st
             \<and> truthy (pin_board (map_of (csv_metadata fr) (basename p)) (board_name fr))
          then [pin_board (map_of (csv_metadata fr) (basename p)) (board_name fr)]
          else [])"
    by simp_all
qed

text \<open>
  Claim C9: in a posting sequence that reaches the fields (the builder page loads, the
  pause of line 438 returns, the file input is there, the upload goes through) and that
  the operator does not interrupt, the \<open>try\<close> blocks of the title, the description and
  the link are all entered, in this order, whichever of them fail; a field is warned
  about exactly when its block failed; a wait for the saving indicator that times out
  (the indicator is there at each of the thirty polls, two seconds apart) is warned
  about; and in every such case the sequence returns normally, so that the loop counts
  the pin as posted.
\<close>

theorem field_failures_are_warnings:
  assumes "nav st = Done" and "file_input st = Done" and "upload st = Done"
    and "sleep (nap st) (dict_get (config fr) ''delay_between_pins'' (JInt 2)) = ([], None)"
    and "title_step st \<noteq> Fails KeyboardInterrupt"
    and "desc_step st \<noteq> Fails KeyboardInterrupt"
    and "link_step st \<noteq> Fails KeyboardInterrupt"
    and "board_step st \<noteq> Fails KeyboardInterrupt"
  shows "\<exists>es. pin_try fr st p = (es, None)
     \<and> map fst (fills es) = [Title, Description, Link]
     \<and> (Warn_fill Title \<in> set es \<longleftrightarrow> title_step st \<noteq> Done)
     \<and> (Warn_fill Description \<in> set es \<longleftrightarrow> desc_step st \<noteq> Done)
     \<and> (Warn_fill Link \<in> set es \<longleftrightarrow> link_step st \<noteq> Done)
     \<and> (Warn_publish \<in> set es \<longleftrightarrow> (\<forall>k<30. saving st (2 * k)))
     \<and> snd (post_loop fr (\<lambda>k. st) i [p] s f) = Inr (s + 1, f)"
proof -
  have b: "truthy (pin_board (map_of (csv_metadata fr) (basename p)) (board_name fr))
             \<longrightarrow> board_step st \<noteq> Fails KeyboardInterrupt"
    using assms(8) by simp
  note t = pin_try_benign [OF assms(1-7) b]
  have w: "Warn_publish \<in> set (if publish_poll (saving st) 0 then [] else [Warn_publish])
        \<longleftrightarrow> (\<forall>k<30. saving st (2 * k))"
    using publish_timeout_iff [of "saving st"] by (cases "publish_poll (saving st) 0") auto
  show ?thesis
    unfolding t
    apply (intro exI conjI)
          apply (rule refl)
         apply (simp add: fills_simps fills_other fills_warned)
        apply (simp add: in_warned)
       apply (simp add: in_warned)
      apply (simp add: in_warned)
     apply (simp add: in_warned w)
    apply (simp add: t Let_def)
    done
qed

theorem field_failures_are_warnings_witness:
  "\<exists>es. pin_try example_frame flaky_site ''/bot/bulk_post_pinterest/a.jpg'' = (es, None)
     \<and> map fst (fills es) = [Title, Description, Link]
     \<and> Warn_fill Title \<in> set es
     \<and> Warn_fill Link \<notin> set es
     \<and> Warn_publish \<in> set es
     \<and> snd (post_loop example_frame (\<lambda>k. flaky_site) 1 [''/bot/bulk_post_pinterest/a.jpg''] 0 0)
         = Inr (1, 0)"
proof -
  have h: "nav flaky_site = Done" "file_input flaky_site = Done" "upload flaky_site = Done"
    "title_step flaky_site \<noteq> Fails KeyboardInterrupt"
    "desc_step flaky_site \<noteq> Fails KeyboardInterrupt"
    "link_step flaky_site \<noteq> Fails KeyboardInterrupt"
    "board_step flaky_site \<noteq> Fails KeyboardInterrupt"
    by (simp_all add: flaky_site_def)
  have sl: "sleep (nap flaky_site) (dict_get (config example_frame) ''delay_between_pins'' (JInt 2))
      = ([], None)"
    by code_simp
  have st: "title_step flaky_site \<noteq> Done" "link_step flaky_site = Done"
    "\<forall>k<30. saving flaky_site (2 * k)"
    by (simp_all add: flaky_site_def)
  show ?thesis
    using field_failures_are_warnings [OF h(1-3) sl h(4-7),
        of "''/bot/bulk_post_pinterest/a.jpg''" 1 0 0] st
    by (auto simp del: post_loop.simps)
qed

text \<open>
  Claim C10: for an image that has a row in the metadata, in a posting sequence that
  reaches the fields and is not interrupted from the keyboard, the \<open>try\<close> blocks of the
  title, the description and the link are entered, in this order, each with the value of
  the row when that value is not empty and with the default of the run when it is
  empty; and \<open>select_board\<close> is called once with the board of the row when that is not
  empty, once with the board of the run when the row has none and the run has one, and
  not at all when both are empty.
\<close>

theorem empty_csv_field_uses_default:
  assumes "map_of (csv_metadata fr) (basename p) = Some m"
    and "reaches_fields (config fr) st"
    and "snd (pin_try fr st p) \<noteq> Some KeyboardInterrupt"
  shows "fills (fst (pin_try fr st p))
       = [(Title, if title m = [] then default_title fr else title m),
          (Description, if description m = [] then default_description fr else description m),
          (Link, if link m = [] then default_link fr else link m)]
     \<and> boards (fst (pin_try fr st p))
       = (if board m \<noteq> [] then [JStr (board m)]
          else if truthy (board_name fr) then [board_name fr] else [])"
  using pin_try_entries [OF assms(3)] assms(1,2)
  by (auto simp add: meta_or_def pin_board_def)

theorem empty_csv_field_uses_default_witness:
  "fills (fst (pin_try example_frame good_site ''/bot/bulk_post_pinterest/b.PNG''))
     = [(Title, ''B''), (Description, []), (Link, ''lb'')]
   \<and> boards (fst (pin_try example_frame good_site ''/bot/bulk_post_pinterest/b.PNG''))
     = [JStr ''Travel'']"
proof -
  let ?m = "\<lparr>title = ''B'', description = [], link = ''lb'', board = []\<rparr>"
  have h: "map_of (csv_metadata example_frame) (basename ''/bot/bulk_post_pinterest/b.PNG'') = Some ?m"
    by code_simp
  have r: "reaches_fields (config example_frame) good_site"
    by code_simp
  have n: "snd (pin_try example_frame good_site ''/bot/bulk_post_pinterest/b.PNG'')
      \<noteq> Some KeyboardInterrupt"
    by code_simp
  have d: "default_description example_frame = []" "board_name example_frame = JStr ''Travel''"
    by (simp_all add: example_frame_def)
  show ?thesis
    using empty_csv_field_uses_default [OF h r n] unfolding d by simp
qed

subsection \<open>The login wait and the session\<close>

lemma login_poll_timeout:
  "(\<forall>u. t \<le> u \<and> int u < n \<longrightarrow> contains ''/login'' (url u))
    \<Longrightarrow> login_poll url n t = (map Polled [t..<nat n], False)"
proof (induction url n t rule: login_poll.induct)
  case (1 url n t)
  show ?case
  proof (cases "int t < n")
    case False
    then show ?thesis by (simp add: login_poll.simps [of url n t])
  next
    case True
    then have c: "contains ''/login'' (url t)" using "1.prems" by simp
    have "login_poll url n (t + 1) = (map Polled [t + 1..<nat n], False)"
      using "1.IH" True c "1.prems" by simp
    moreover have "[t..<nat n] = t # [t + 1..<nat n]"
      using True by (simp add: upt_conv_Cons)
    ultimately show ?thesis
      using True c by (simp add: login_poll.simps [of url n t])
  qed
qed

lemma login_poll_found:
  "t \<le> t1 \<Longrightarrow> int t1 < n \<Longrightarrow> \<not> contains ''/login'' (url t1)
    \<Longrightarrow> (\<forall>u. t \<le> u \<and> u < t1 \<longrightarrow> contains ''/login'' (url u))
    \<Longrightarrow> login_poll url n t = (map Polled [t..<Suc t1] @ [Info_login_detected], True)"
proof (induction url n t rule: login_poll.induct)
  case (1 url n t)
  have lt: "int t < n" using "1.prems" by simp
  show ?case
  proof (cases "t = t1")
    case True
    then show ?thesis
      using "1.prems" by (simp add: login_poll.simps [of url n t1])
  next
    case False
    then have c: "contains ''/login'' (url t)" and le: "t + 1 \<le> t1"
      using "1.prems" by simp_all
    have "login_poll url n (t + 1) = (map Polled [t + 1..<Suc t1] @ [Info_login_detected], True)"
      using "1.IH" lt c le "1.prems" by simp
    moreover have "[t..<Suc t1] = t # [t + 1..<Suc t1]"
      using le by (simp add: upt_conv_Cons)
    ultimately show ?thesis
      using lt c by (simp add: login_poll.simps [of url n t])
  qed
qed

text \<open>
  An integer timeout beyond the range of the floats makes line 191 raise, after the login
  page was opened and before the location is read.
\<close>

lemma wait_for_login_overflow:
  "wait_for_login url inp (JInt (10 ^ 400)) = ([Opened PINTEREST_LOGIN_URL], inp, Inl OverflowError)"
  by (simp add: wait_for_login_def as_float_ok_def)

lemma login_poll_events: "list_all is_login_event (fst (login_poll url n t))"
proof (induction url n t rule: login_poll.induct)
  case (1 url n t)
  show ?case
    using "1.IH"
    by (auto simp add: login_poll.simps [of url n t] split: prod.splits)
qed

lemma ask_events: "list_all is_login_event (fst (ask q inp))"
  by (simp add: ask_def split: list.splits)

lemma wait_for_login_events: "list_all is_login_event (fst (wait_for_login url inp tmo))"
proof (cases "seconds_of tmo")
  case None
  then show ?thesis by (simp add: wait_for_login_def)
next
  case (Some n)
  obtain es r where p: "login_poll url n 0 = (es, r)"
    by (cases "login_poll url n 0")
  have es: "list_all is_login_event es"
    using login_poll_events [of url n 0] p by simp
  show ?thesis
    using Some p es
    by (cases r) (auto simp add: wait_for_login_def ask_def Let_def split: list.splits)
qed

lemma login_event_plain: "is_login_event e \<Longrightarrow> \<not> is_summary e \<and> attempt_of e = []"
  by (cases e) simp_all

lemma no_summary: "list_all (\<lambda>e. \<not> is_summary e) es \<Longrightarrow> filter is_summary es = []"
  by (simp add: list_all_iff filter_empty_conv)

lemma login_no_summary:
  "wait_for_login url inp tmo = (ls, inp', r) \<Longrightarrow> filter is_summary ls = []"
  using wait_for_login_events [of url inp tmo]
  by (auto simp add: list_all_iff filter_empty_conv login_event_plain)

lemma loop_no_summary: "filter is_summary (fst (post_loop fr ss i images s f)) = []"
  using post_loop_events [of fr ss i images s f]
  by (auto simp add: list_all_iff filter_empty_conv loop_event_not_summary)



text \<open>
  Claim C4 says that the summary is printed also when the loop is interrupted. The
  summary (lines 455 to 457) is the last statement of the \<open>try\<close> block, and the handler
  of \<open>KeyboardInterrupt\<close> (line 460) only logs a message. In a run of three images
  interrupted during the upload of the second, two pins are started, the interruption is
  logged, no summary is printed and \<open>main\<close> returns; interrupted during the upload of
  the third, all three pins are started and still no summary is printed.
\<close>

theorem interrupted_loop_prints_no_summary:
  "filter is_summary (fst (main example_args interrupted_world)) = []
   \<and> attempts (fst (main example_args interrupted_world)) = [(1, ''a.jpg''), (2, ''b.PNG'')]
   \<and> Info_interrupted \<in> set (fst (main example_args interrupted_world))
   \<and> snd (main example_args interrupted_world) = Finished
   \<and> filter is_summary (fst (main example_args last_interrupted_world)) = []
   \<and> attempts (fst (main example_args last_interrupted_world))
       = [(1, ''a.jpg''), (2, ''b.PNG''), (3, ''c.jpeg'')]
   \<and> snd (main example_args last_interrupted_world) = Finished"
  by code_simp

text \<open>
  Claim C4, amended: once the login wait has returned true, the rest of \<open>main\<close> (its
  \<open>try\<close> block with the handler and the \<open>finally\<close> block) returns normally and the
  browser is closed last in every case. When no posting sequence is interrupted from
  the keyboard, exactly one summary is printed; its counts are the number of posting
  sequences that returned, the number of those that raised, and the number of images,
  and the first two add up to the third. When a posting sequence is interrupted, be it
  the last one, no summary is printed and the interruption is logged instead.
\<close>

theorem summary_only_after_a_complete_loop:
  assumes "wait_for_login (url_at w) inp (dict_get (config fr) ''login_wait_seconds'' (JInt 60))
             = (ls, inp', Inr True)"
  shows "snd (session w fr images inp) = Finished
     \<and> (\<exists>es. fst (session w fr images inp) = es @ [Quit, Info_closed])
     \<and> (if \<exists>kp\<in>set (enumerate 1 images). pin_result fr (sites w) kp = Some KeyboardInterrupt
        then filter is_summary (fst (session w fr images inp)) = []
           \<and> Info_interrupted \<in> set (fst (session w fr images inp))
        else filter is_summary (fst (session w fr images inp))
               = [Summary
                    (length (filter (\<lambda>kp. pin_result fr (sites w) kp = None) (enumerate 1 images)))
                    (length (filter (\<lambda>kp. pin_result fr (sites w) kp \<noteq> None) (enumerate 1 images)))
                    (length images)]
           \<and> length (filter (\<lambda>kp. pin_result fr (sites w) kp = None) (enumerate 1 images))
               + length (filter (\<lambda>kp. pin_result fr (sites w) kp \<noteq> None) (enumerate 1 images))
               = length images)"
proof (cases "\<exists>kp\<in>set (enumerate 1 images). pin_result fr (sites w) kp = Some KeyboardInterrupt")
  case True
  obtain ps r where l: "post_loop fr (sites w) 1 images 0 0 = (ps, r)"
    by (cases "post_loop fr (sites w) 1 images 0 0")
  have r: "r = Inl KeyboardInterrupt"
    using post_loop_interrupted [OF True, of 0 0] l by simp
  have ps: "filter is_summary ps = []"
    using loop_no_summary [of fr "sites w" 1 images 0 0] l by simp
  have s: "session w fr images inp
      = (ls @ [Info_start (length images)] @ ps @ [Info_interrupted, Quit, Info_closed], Finished)"
    using assms l r by (simp add: session_def)
  show ?thesis
    using True ps login_no_summary [OF assms] by (simp add: s)
next
  case False
  then have run: "\<forall>kp\<in>set (enumerate 1 images). pin_result fr (sites w) kp \<noteq> Some KeyboardInterrupt"
    by simp
  let ?ok = "length (filter (\<lambda>kp. pin_result fr (sites w) kp = None) (enumerate 1 images))"
  let ?bad = "length (filter (\<lambda>kp. pin_result fr (sites w) kp \<noteq> None) (enumerate 1 images))"
  from post_loop_completes [OF run, of 0 0] obtain ps where
    l: "post_loop fr (sites w) 1 images 0 0 = (ps, Inr (?ok, ?bad))"
    by auto
  have ps: "filter is_summary ps = []"
    using loop_no_summary [of fr "sites w" 1 images 0 0] l by simp
  have sum: "?ok + ?bad = length images"
    using sum_length_filter_compl [of "\<lambda>kp. pin_result fr (sites w) kp = None" "enumerate 1 images"]
    by simp
  have s: "session w fr images inp
      = (ls @ [Info_start (length images)] @ ps
           @ [Summary ?ok ?bad (length images), Quit, Info_closed], Finished)"
    using assms l by (simp add: session_def)
  have "filter is_summary (fst (session w fr images inp)) = [Summary ?ok ?bad (length images)]"
    using ps login_no_summary [OF assms] by (simp add: s)
  then show ?thesis
    using False sum by (simp add: s)
qed

theorem summary_only_after_a_complete_loop_witness:
  "filter is_summary (fst (session interrupted_world example_frame example_images [])) = []
   \<and> Info_interrupted \<in> set (fst (session interrupted_world example_frame example_images []))
   \<and> filter is_summary (fst (session last_interrupted_world example_frame example_images [])) = []
   \<and> filter is_summary (fst (session example_world example_frame example_images []))
       = [Summary 2 1 3]"
proof -
  have login: "wait_for_login (url_at interrupted_world) []
                 (dict_get (config example_frame) ''login_wait_seconds'' (JInt 60))
      = ([Opened PINTEREST_LOGIN_URL, Polled 0, Polled 1, Polled 2, Info_login_detected], [], Inr True)"
    "wait_for_login (url_at last_interrupted_world) []
                 (dict_get (config example_frame) ''login_wait_seconds'' (JInt 60))
      = ([Opened PINTEREST_LOGIN_URL, Polled 0, Polled 1, Polled 2, Info_login_detected], [], Inr True)"
    "wait_for_login (url_at example_world) []
                 (dict_get (config example_frame) ''login_wait_seconds'' (JInt 60))
      = ([Opened PINTEREST_LOGIN_URL, Polled 0, Polled 1, Polled 2, Info_login_detected], [], Inr True)"
    by code_simp+
  have stop: "\<exists>kp\<in>set (enumerate 1 example_images).
      pin_result example_frame (sites interrupted_world) kp = Some KeyboardInterrupt"
    "\<exists>kp\<in>set (enumerate 1 example_images).
      pin_result example_frame (sites last_interrupted_world) kp = Some KeyboardInterrupt"
    by code_simp+
  have run: "\<not> (\<exists>kp\<in>set (enumerate 1 example_images).
      pin_result example_frame (sites example_world) kp = Some KeyboardInterrupt)"
    by code_simp
  have counts:
    "length (filter (\<lambda>kp. pin_result example_frame (sites example_world) kp = None)
       (enumerate 1 example_images)) = 2"
    "length (filter (\<lambda>kp. pin_result example_frame (sites example_world) kp \<noteq> None)
       (enumerate 1 example_images)) = 1"
    "length example_images = 3"
    by code_simp+
  have "filter is_summary (fst (session interrupted_world example_frame example_images [])) = []
   \<and> Info_interrupted \<in> set (fst (session interrupted_world example_frame example_images []))"
    using summary_only_after_a_complete_loop [OF login(1), of example_images] stop(1) by simp
  moreover have "filter is_summary (fst (session last_interrupted_world example_frame example_images [])) = []"
    using summary_only_after_a_complete_loop [OF login(2), of example_images] stop(2) by simp
  moreover have "filter is_summary (fst (session example_world example_frame example_images []))
       = [Summary 2 1 3]"
    using summary_only_after_a_complete_loop [OF login(3), of example_images] run unfolding counts by simp
  ultimately show ?thesis by simp
qed

text \<open>
  Claim C8 says that any answer other than \<open>y\<close> aborts the run. The answer is stripped
  and put to lower case before it is compared (line 200): when the login page never goes
  away, the answers \<open>Y\<close> and \<open> Y \<close> count as a confirmation, and the run goes on to post
  the three pins.
\<close>

theorem capital_Y_confirms_the_login:
  "wait_for_login (\<lambda>t. PINTEREST_LOGIN_URL) [''Y''] (JInt 2)
     = ([Opened PINTEREST_LOGIN_URL, Polled 0, Polled 1, Asked AskLoggedIn], [], Inr True)
   \<and> snd (main example_args (stuck_world\<lparr>stdin := ['' Y '']\<rparr>)) = Finished
   \<and> attempts (fst (main example_args (stuck_world\<lparr>stdin := ['' Y '']\<rparr>)))
       = [(1, ''a.jpg''), (2, ''b.PNG''), (3, ''c.jpeg'')]"
  by code_simp

text \<open>
  Claim C8, amended: with a timeout in the configuration that is a number \<open>n\<close> of seconds
  within the range of the floats, the location is read once per second; at the first
  second before the timeout at which it does not contain \<open>/login\<close> the wait returns
  true, with no question asked and no later read.
  When the location contains \<open>/login\<close> at every one of the \<open>n\<close> reads, the operator is asked
  once; the wait returns true exactly when the answer, stripped and in lower case, is
  \<open>y\<close>; with any other answer the error is logged, the browser is quit (twice: line 411
  and the \<open>finally\<close> block), no pin is started and the process exits with status 1.
\<close>

theorem login_gate:
  assumes "tmo = dict_get (config fr) ''login_wait_seconds'' (JInt 60)"
    and "seconds_of tmo = Some n"
    and "as_float_ok n"
  shows "(\<forall>t. int t < n \<and> \<not> contains ''/login'' (url_at w t)
              \<and> (\<forall>u<t. contains ''/login'' (url_at w u)) \<longrightarrow>
            wait_for_login (url_at w) inp tmo
              = (Opened PINTEREST_LOGIN_URL # map Polled [0..<Suc t] @ [Info_login_detected],
                 inp, Inr True))
       \<and> ((\<forall>t. int t < n \<longrightarrow> contains ''/login'' (url_at w t)) \<longrightarrow>
            (\<forall>answer rest.
               wait_for_login (url_at w) (answer # rest) tmo
                 = (Opened PINTEREST_LOGIN_URL # map Polled [0..<nat n] @ Asked AskLoggedIn
                      # (if lower (strip answer) = ''y'' then [] else [Error_login]),
                    rest, Inr (lower (strip answer) = ''y''))
             \<and> (lower (strip answer) \<noteq> ''y'' \<longrightarrow>
                 session w fr images (answer # rest)
                   = (Opened PINTEREST_LOGIN_URL # map Polled [0..<nat n]
                        @ [Asked AskLoggedIn, Error_login, Quit, Quit, Info_closed], Exited 1))))"
proof (intro conjI allI impI)
  fix t
  assume a: "int t < n \<and> \<not> contains ''/login'' (url_at w t) \<and> (\<forall>u<t. contains ''/login'' (url_at w u))"
  have "login_poll (url_at w) n 0 = (map Polled [0..<Suc t] @ [Info_login_detected], True)"
    by (rule login_poll_found) (use a in simp_all)
  then show "wait_for_login (url_at w) inp tmo
      = (Opened PINTEREST_LOGIN_URL # map Polled [0..<Suc t] @ [Info_login_detected], inp, Inr True)"
    using assms(2,3) by (simp add: wait_for_login_def)
next
  fix answer rest
  assume a: "\<forall>t. int t < n \<longrightarrow> contains ''/login'' (url_at w t)"
  have p: "login_poll (url_at w) n 0 = (map Polled [0..<nat n], False)"
    by (rule login_poll_timeout) (use a in simp)
  show w: "wait_for_login (url_at w) (answer # rest) tmo
      = (Opened PINTEREST_LOGIN_URL # map Polled [0..<nat n] @ Asked AskLoggedIn
           # (if lower (strip answer) = ''y'' then [] else [Error_login]),
         rest, Inr (lower (strip answer) = ''y''))"
    using assms(2,3) p by (simp add: wait_for_login_def ask_def Let_def)
  assume "lower (strip answer) \<noteq> ''y''"
  then show "session w fr images (answer # rest)
      = (Opened PINTEREST_LOGIN_URL # map Polled [0..<nat n]
           @ [Asked AskLoggedIn, Error_login, Quit, Quit, Info_closed], Exited 1)"
    using w assms(1) by (simp add: session_def)
qed

theorem login_gate_witness:
  "wait_for_login (url_at example_world) [] (JInt 60)
     = ([Opened PINTEREST_LOGIN_URL, Polled 0, Polled 1, Polled 2, Info_login_detected], [], Inr True)
   \<and> session stuck_world example_frame example_images [''n'']
     = (Opened PINTEREST_LOGIN_URL # map Polled [0..<60]
          @ [Asked AskLoggedIn, Error_login, Quit, Quit, Info_closed], Exited 1)"
proof -
  have tmo: "JInt 60 = dict_get (config example_frame) ''login_wait_seconds'' (JInt 60)"
    by code_simp
  have n: "seconds_of (JInt 60) = Some 60"
    by simp
  have fl: "as_float_ok 60"
    by (simp add: as_float_ok_def)
  have found: "int 2 < 60 \<and> \<not> contains ''/login'' (url_at example_world 2)
       \<and> (\<forall>u<2. contains ''/login'' (url_at example_world u))"
    by (simp add: example_world_def smooth_world_def)
  have stuck: "\<forall>t. int t < 60 \<longrightarrow> contains ''/login'' (url_at stuck_world t)"
    by (simp add: stuck_world_def smooth_world_def)
  have no: "lower (strip ''n'') \<noteq> ''y''"
    by code_simp
  have "wait_for_login (url_at example_world) [] (JInt 60)
     = (Opened PINTEREST_LOGIN_URL # map Polled [0..<Suc 2] @ [Info_login_detected], [], Inr True)"
    using login_gate [OF tmo n fl, of example_world "[]"] found by blast
  moreover have "session stuck_world example_frame example_images [''n'']
     = (Opened PINTEREST_LOGIN_URL # map Polled [0..<nat 60]
          @ [Asked AskLoggedIn, Error_login, Quit, Quit, Info_closed], Exited 1)"
    using login_gate [OF tmo n fl, of stuck_world _ example_images] stuck no by blast
  ultimately show ?thesis
    by (simp add: upt_rec)
qed

subsection \<open>The whole run\<close>






lemma agrees_prepend:
  "list_all plain pre \<Longrightarrow> exit_agrees (es, out) \<Longrightarrow> exit_agrees (pre @ es, out)"
  by (cases out) (auto simp add: exit_agrees_def plain_def list_all_iff list_ex_iff)

lemma agrees_uncaught: "list_all plain es \<Longrightarrow> exit_agrees (es, Uncaught e)"
  by (auto simp add: exit_agrees_def plain_def list_all_iff list_ex_iff)

lemma load_config_plain: "list_all plain (fst (load_config fs p))"
  by (auto simp add: load_config_def plain_def split: file_read.splits prod.splits option.splits)

lemma load_csv_metadata_plain: "list_all plain (fst (load_csv_metadata fs p))"
  by (auto simp add: load_csv_metadata_def plain_def
      split: option.splits csv_read.splits sum.splits)

lemma ask_plain: "ask q inp = (es, r) \<Longrightarrow> list_all plain es"
  by (auto simp add: ask_def plain_def split: list.splits)

lemma collect_defaults_plain: "list_all plain (fst (collect_defaults md inp))"
  by (auto simp add: collect_defaults_def ask_def plain_def split: list.splits)

lemma collect_board_plain: "list_all plain (fst (collect_board b inp))"
  by (auto simp add: collect_board_def ask_def plain_def split: list.splits)

lemma login_poll_plain: "list_all plain (fst (login_poll url n t))"
proof (induction url n t rule: login_poll.induct)
  case (1 url n t)
  show ?case
    using "1.IH"
    by (auto simp add: login_poll.simps [of url n t] plain_def split: prod.splits)
qed

lemma wait_for_login_plain:
  assumes "wait_for_login url inp tmo = (ls, inp', r)"
  shows "if r = Inr False then (\<exists>es. ls = es @ [Error_login] \<and> list_all plain es)
         else list_all plain ls"
proof (cases "seconds_of tmo")
  case None
  then show ?thesis using assms by (auto simp add: wait_for_login_def plain_def)
next
  case (Some n)
  show ?thesis
  proof (cases "as_float_ok n")
    case False
    then show ?thesis using assms Some by (auto simp add: wait_for_login_def plain_def)
  next
    case ok: True
    obtain es b where p: "login_poll url n 0 = (es, b)"
      by (cases "login_poll url n 0")
    have es: "list_all plain es"
      using login_poll_plain [of url n 0] p by simp
    have o: "plain (Opened PINTEREST_LOGIN_URL)" "plain (Asked AskLoggedIn)"
      by (simp_all add: plain_def)
    show ?thesis
    proof (cases b)
      case True
      then show ?thesis
        using assms Some ok p es o by (auto simp add: wait_for_login_def)
    next
      case False
      show ?thesis
      proof (cases inp)
        case Nil
        then show ?thesis
          using assms Some ok p es o False by (auto simp add: wait_for_login_def ask_def)
      next
        case (Cons answer rest)
        show ?thesis
        proof (cases "lower (strip answer) = ''y''")
          case True
          then show ?thesis
            using assms Some ok p es o False Cons by (auto simp add: wait_for_login_def ask_def)
        next
          case n: False
          have ls: "ls = (Opened PINTEREST_LOGIN_URL # es @ [Asked AskLoggedIn]) @ [Error_login]"
            and r: "r = Inr False"
            using assms Some ok p False Cons n by (auto simp add: wait_for_login_def ask_def)
          have pl: "list_all plain (Opened PINTEREST_LOGIN_URL # es @ [Asked AskLoggedIn])"
            using es o by simp
          have "\<exists>es'. ls = es' @ [Error_login] \<and> list_all plain es'"
            using ls pl by blast
          then show ?thesis using r by simp
        qed
      qed
    qed
  qed
qed

lemma loop_event_plain: "is_loop_event e \<Longrightarrow> plain e"
  by (cases e) (simp_all add: plain_def)

lemma post_loop_plain: "list_all plain (fst (post_loop fr ss i images s f))"
  using post_loop_events [of fr ss i images s f]
  by (auto simp add: list_all_iff loop_event_plain)

lemma session_agrees: "exit_agrees (session w fr images inp)"
proof -
  obtain ls inp' r where
    l: "wait_for_login (url_at w) inp (dict_get (config fr) ''login_wait_seconds'' (JInt 60))
          = (ls, inp', r)"
    by (cases "wait_for_login (url_at w) inp (dict_get (config fr) ''login_wait_seconds'' (JInt 60))")
  note lp = wait_for_login_plain [OF l]
  obtain ps q where p: "post_loop fr (sites w) 1 images 0 0 = (ps, q)"
    by (cases "post_loop fr (sites w) 1 images 0 0")
  have ps: "list_all plain ps"
    using post_loop_plain [of fr "sites w" 1 images 0 0] p by simp
  show ?thesis
  proof (cases r)
    case (Inl e)
    then show ?thesis
      using l lp
      by (auto simp add: session_def exit_agrees_def plain_def list_all_iff list_ex_iff)
  next
    case (Inr b)
    show ?thesis
    proof (cases b)
      case False
      then show ?thesis
        using l lp Inr
        by (auto simp add: session_def exit_agrees_def plain_def list_all_iff list_ex_iff)
    next
      case True
      then have "list_all plain ls" using lp Inr by simp
      then show ?thesis
        using l Inr True p ps
        by (cases q)
          (auto simp add: session_def exit_agrees_def plain_def list_all_iff list_ex_iff)
    qed
  qed
qed

lemma main_browser_agrees: "exit_agrees (main_browser w hl fr images inp)"
proof (cases "chrome_starts w")
  case True
  obtain ss out where s: "session w fr images inp = (ss, out)"
    by (cases "session w fr images inp")
  have "exit_agrees (ss, out)" using session_agrees [of w fr images inp] s by simp
  then have "exit_agrees ([Info_starting_chrome, Driver_created hl] @ ss, out)"
    by (rule agrees_prepend [rotated]) (simp add: plain_def)
  then show ?thesis
    using True s by (simp add: main_browser_def create_driver_def)
next
  case False
  then show ?thesis
    by (simp add: main_browser_def create_driver_def exit_agrees_def)
qed

lemma main_images_agrees: "exit_agrees (main_images a w cfg images)"
proof -
  obtain e1 r1 where c: "load_csv_metadata (csvs w) (arg_csv a) = (e1, r1)"
    by (cases "load_csv_metadata (csvs w) (arg_csv a)")
  have e1: "list_all plain e1" using load_csv_metadata_plain [of "csvs w" "arg_csv a"] c by simp
  show ?thesis
  proof (cases r1)
    case (Inl e)
    then show ?thesis using c e1 by (simp add: main_images_def agrees_uncaught)
  next
    case (Inr md)
    obtain e2 i2 r2 where d: "collect_defaults md (stdin w) = (e2, i2, r2)"
      by (cases "collect_defaults md (stdin w)")
    have e2: "list_all plain e2" using collect_defaults_plain [of md "stdin w"] d by simp
    show ?thesis
    proof (cases r2)
      case (Inl e)
      then show ?thesis using c Inr d e1 e2 by (simp add: main_images_def agrees_uncaught)
    next
      case tdl: (Inr tdl)
      obtain t d' l where tdl': "tdl = (t, d', l)" by (cases tdl)
      let ?b = "py_or (opt_str (arg_board a)) (dict_get cfg ''board_name'' (JStr []))"
      obtain e3 i3 r3 where b: "collect_board ?b i2 = (e3, i3, r3)"
        by (cases "collect_board ?b i2")
      have e3: "list_all plain e3" using collect_board_plain [of ?b i2] b by simp
      show ?thesis
      proof (cases r3)
        case (Inl e)
        then show ?thesis
          using c Inr d tdl tdl' b e1 e2 e3 by (simp add: main_images_def agrees_uncaught)
      next
        case brd: (Inr brd)
        let ?fr = "\<lparr>config = cfg, csv_metadata = md, default_title = t, default_description = d',
                    default_link = l, board_name = brd\<rparr>"
        let ?hl = "arg_headless a \<or> truthy (dict_get cfg ''headless'' (JBool False))"
        obtain e4 out where m: "main_browser w ?hl ?fr images i3 = (e4, out)"
          by (cases "main_browser w ?hl ?fr images i3")
        have "exit_agrees (e4, out)" using main_browser_agrees [of w ?hl ?fr images i3] m by simp
        then have "exit_agrees ((e1 @ e2 @ e3) @ e4, out)"
          by (rule agrees_prepend [rotated]) (simp add: e1 e2 e3)
        then show ?thesis
          using c Inr d tdl tdl' b brd m by (simp add: main_images_def)
      qed
    qed
  qed
qed

lemma main_agrees: "exit_agrees (main a w)"
proof -
  obtain e1 r1 where c: "load_config (files w) (arg_config a) = (e1, r1)"
    by (cases "load_config (files w) (arg_config a)")
  have e1: "list_all plain e1" using load_config_plain [of "files w" "arg_config a"] c by simp
  show ?thesis
  proof (cases r1)
    case (Inl e)
    then show ?thesis using c e1 by (simp add: main_def agrees_uncaught)
  next
    case (Inr cfg)
    let ?f = "resolve_folder (script_dir w)
                (py_or (opt_str (arg_images a)) (dict_get cfg ''images_folder'' (JStr DEFAULT_IMAGES_FOLDER)))"
    show ?thesis
    proof (cases ?f)
      case (Inl e)
      then show ?thesis using c Inr e1 by (simp add: main_def agrees_uncaught)
    next
      case folder: (Inr folder)
      show ?thesis
      proof (cases "dirs w folder")
        case None
        then have "main a w = (e1 @ [Error_no_folder], Exited 1)"
          using c Inr folder by (simp add: main_def discover_images_def)
        then show ?thesis
          using e1 by (auto simp add: exit_agrees_def plain_def list_all_iff list_ex_iff)
      next
        case (Some entries)
        show ?thesis
        proof (cases "sort (map fst (filter is_image entries)) = []")
          case True
          then have "main a w = (e1 @ [Error_no_images], Exited 1)"
            using c Inr folder Some by (simp add: main_def discover_images_def)
          then show ?thesis
            using e1 by (auto simp add: exit_agrees_def plain_def list_all_iff list_ex_iff)
        next
          case False
          let ?images = "sort (map fst (filter is_image entries))"
          obtain e3 out where m: "main_images a w cfg ?images = (e3, out)"
            by (cases "main_images a w cfg ?images")
          have "exit_agrees (e3, out)" using main_images_agrees [of a w cfg ?images] m by simp
          then have "exit_agrees ((e1 @ [Info_found (length ?images)]) @ e3, out)"
            by (rule agrees_prepend [rotated]) (simp add: e1 plain_def)
          then show ?thesis
            using c Inr folder Some False m by (simp add: main_def discover_images_def Let_def)
        qed
      qed
    qed
  qed
qed

text \<open>
  Claim C3 says that the exit status is not zero in four cases only. The script has no
  handler around \<open>main\<close>: an exception that leaves it ends the process with a traceback
  and status 1. Here no metadata file is given and the standard input is at its end when
  the title is asked for (line 395): \<open>input\<close> raises \<open>EOFError\<close>. The folder is there and
  three images were found, the browser was not started yet, the login was not asked
  for, none of the four errors was logged, and the status is 1.
\<close>

theorem end_of_input_ends_the_run:
  "main plain_args silent_world = ([Info_found 3, Asked AskTitle], Uncaught EOFError)
   \<and> exit_code (snd (main plain_args silent_world)) = 1
   \<and> \<not> list_ex is_hard_error (fst (main plain_args silent_world))"
  by code_simp

text \<open>
  Claim C3, amended: the exit status is not zero exactly when one of the four errors was
  logged (no images folder, no image found, Chrome could not be started, login not
  confirmed) or an exception left \<open>main\<close>; it is 0 whenever the summary was printed,
  whatever its counts; and when the folder is missing, or holds no file with a supported
  extension, the error is the last thing the run does: nothing is logged, asked or
  started after it, and the status is 1.
\<close>

theorem exit_code_of_main:
  "(exit_code (snd (main a w)) \<noteq> 0
      \<longleftrightarrow> list_ex is_hard_error (fst (main a w)) \<or> (\<exists>e. snd (main a w) = Uncaught e))
   \<and> (\<forall>s f t. Summary s f t \<in> set (fst (main a w)) \<longrightarrow> exit_code (snd (main a w)) = 0)
   \<and> (\<forall>e1 cfg folder.
        load_config (files w) (arg_config a) = (e1, Inr cfg)
        \<and> resolve_folder (script_dir w)
             (py_or (opt_str (arg_images a)) (dict_get cfg ''images_folder'' (JStr DEFAULT_IMAGES_FOLDER)))
           = Inr folder
        \<longrightarrow> (dirs w folder = None \<longrightarrow> main a w = (e1 @ [Error_no_folder], Exited 1))
          \<and> (\<forall>entries. dirs w folder = Some entries \<and> filter is_image entries = []
                \<longrightarrow> main a w = (e1 @ [Error_no_images], Exited 1)))"
proof (intro conjI allI impI)
  show "exit_code (snd (main a w)) \<noteq> 0
      \<longleftrightarrow> list_ex is_hard_error (fst (main a w)) \<or> (\<exists>e. snd (main a w) = Uncaught e)"
    using main_agrees [of a w]
    by (cases "snd (main a w)") (auto simp add: exit_agrees_def)
next
  fix s f t
  assume "Summary s f t \<in> set (fst (main a w))"
  moreover have "is_summary (Summary s f t)"
    by simp
  ultimately have "list_ex is_summary (fst (main a w))"
    unfolding list_ex_iff by blast
  then show "exit_code (snd (main a w)) = 0"
    using main_agrees [of a w]
    by (cases "snd (main a w)") (auto simp add: exit_agrees_def)
next
  fix e1 cfg folder
  assume h: "load_config (files w) (arg_config a) = (e1, Inr cfg)
        \<and> resolve_folder (script_dir w)
             (py_or (opt_str (arg_images a)) (dict_get cfg ''images_folder'' (JStr DEFAULT_IMAGES_FOLDER)))
           = Inr folder"
  assume "dirs w folder = None"
  then show "main a w = (e1 @ [Error_no_folder], Exited 1)"
    using h by (simp add: main_def discover_images_def)
next
  fix e1 cfg folder entries
  assume h: "load_config (files w) (arg_config a) = (e1, Inr cfg)
        \<and> resolve_folder (script_dir w)
             (py_or (opt_str (arg_images a)) (dict_get cfg ''images_folder'' (JStr DEFAULT_IMAGES_FOLDER)))
           = Inr folder"
  assume "dirs w folder = Some entries \<and> filter is_image entries = []"
  then show "main a w = (e1 @ [Error_no_images], Exited 1)"
    using h by (simp add: main_def discover_images_def)
qed

theorem exit_code_of_main_witness:
  "exit_code (snd (main example_args all_failing_world)) = 0
   \<and> Summary 0 3 3 \<in> set (fst (main example_args all_failing_world))
   \<and> main example_args no_folder_world = ([Error_no_folder], Exited 1)
   \<and> exit_code (snd (main example_args stuck_world)) \<noteq> 0"
proof -
  have s: "Summary 0 3 3 \<in> set (fst (main example_args all_failing_world))"
    by code_simp
  have cfg: "load_config (files no_folder_world) (arg_config example_args) = ([], Inr defaults)"
    by code_simp
  have folder: "resolve_folder (script_dir no_folder_world)
            (py_or (opt_str (arg_images example_args))
               (dict_get defaults ''images_folder'' (JStr DEFAULT_IMAGES_FOLDER)))
          = Inr ''/bot/bulk_post_pinterest''"
    by code_simp
  have none: "dirs no_folder_world ''/bot/bulk_post_pinterest'' = None"
    by code_simp
  have hard: "list_ex is_hard_error (fst (main example_args stuck_world))"
    by code_simp
  have "exit_code (snd (main example_args all_failing_world)) = 0"
    using exit_code_of_main [of example_args all_failing_world] s by blast
  moreover have "main example_args no_folder_world = ([] @ [Error_no_folder], Exited 1)"
    using exit_code_of_main [of example_args no_folder_world] cfg folder none by blast
  moreover have "exit_code (snd (main example_args stuck_world)) \<noteq> 0"
    using exit_code_of_main [of example_args stuck_world] hard by blast
  ultimately show ?thesis
    using s by simp
qed

end
